theory Spec2Isabelle
  imports Complex_Main "HOL-Library.Word" "HOL-Library.Char_ord"
begin

section \<open>A shallow embedding of examples/tinygpt.py\<close>

text \<open>
  The program trains a character-level transformer and samples text from it. Python
  integers are \<open>int\<close>, float32 values are idealised as \<open>real\<close>, the int8 and int32
  tensors are \<open>8 word\<close> and \<open>32 word\<close>, and every exception the program can raise is a
  value of \<open>error\<close>. One section keeps the infinities and NaN of float32, for the
  loss.
\<close>

datatype error =
  KeyError | IndexError | ValueError | ZeroDivisionError | AttributeError | ShapeMismatch

section \<open>Vocabulary: lines 230 to 239\<close>

text \<open>
  \<^verbatim>\<open>chars = sorted(list(set(text)))\<close>. A Python string is a sequence of code points;
  any linearly ordered type of characters stands for them.
\<close>

definition chars :: "'a::linorder list \<Rightarrow> 'a list" where
  "chars corpus = sorted_list_of_set (set corpus)"

definition vocab_size :: "'a::linorder list \<Rightarrow> nat" where
  "vocab_size corpus = length (chars corpus)"

text \<open>
  \<^verbatim>\<open>stoi = { ch:i for i,ch in enumerate(chars) }\<close> and
  \<^verbatim>\<open>itos = { i:ch for i,ch in enumerate(chars) }\<close>: a dict comprehension stores the
  pairs in order, a later pair replacing an earlier one with the same key.
\<close>

definition dict_of :: "('k \<times> 'v) list \<Rightarrow> ('k \<rightharpoonup> 'v)" where
  "dict_of kvs = foldl (\<lambda>m (k, v). m(k \<mapsto> v)) Map.empty kvs"

definition stoi :: "'a::linorder list \<Rightarrow> ('a \<rightharpoonup> int)" where
  "stoi corpus = dict_of (map (\<lambda>(i, ch). (ch, int i)) (enumerate 0 (chars corpus)))"

definition itos :: "'a::linorder list \<Rightarrow> (int \<rightharpoonup> 'a)" where
  "itos corpus = dict_of (map (\<lambda>(i, ch). (int i, ch)) (enumerate 0 (chars corpus)))"

text \<open>
  \<^verbatim>\<open>encode = lambda s: [stoi[c] for c in s]\<close> and
  \<^verbatim>\<open>decode = lambda l: ''.join([itos[i] for i in l])\<close>: a missing key raises KeyError.
\<close>

fun lookup_all :: "('k \<rightharpoonup> 'v) \<Rightarrow> 'k list \<Rightarrow> error + 'v list" where
  "lookup_all d [] = Inr []"
| "lookup_all d (k # ks) =
     (case d k of
        None \<Rightarrow> Inl KeyError
      | Some v \<Rightarrow> (case lookup_all d ks of Inl e \<Rightarrow> Inl e | Inr vs \<Rightarrow> Inr (v # vs)))"

definition encode :: "'a::linorder list \<Rightarrow> 'a list \<Rightarrow> error + int list" where
  "encode corpus s = lookup_all (stoi corpus) s"

definition decode :: "'a::linorder list \<Rightarrow> int list \<Rightarrow> error + 'a list" where
  "decode corpus l = lookup_all (itos corpus) l"

text \<open>\<^verbatim>\<open>decode(encode(s))\<close>, an exception of \<^verbatim>\<open>encode\<close> passing through.\<close>

definition decode_encode :: "'a::linorder list \<Rightarrow> 'a list \<Rightarrow> error + 'a list" where
  "decode_encode corpus s = (case encode corpus s of Inl e \<Rightarrow> Inl e | Inr l \<Rightarrow> decode corpus l)"

section \<open>Hyperparameters: lines 16 to 26\<close>

record hyper =
  batch_size :: nat
  block_size :: nat
  max_iters :: nat
  eval_interval :: nat
  learning_rate :: real
  eval_iters :: nat
  n_embd :: nat
  n_head :: nat
  n_layer :: nat
  dropout :: real

definition tinygpt_hyper :: hyper where
  "tinygpt_hyper = \<lparr> batch_size = 64, block_size = 128, max_iters = 5000, eval_interval = 500,
     learning_rate = 3 / 10000, eval_iters = 200, n_embd = 192, n_head = 4, n_layer = 4,
     dropout = 2 / 10 \<rparr>"

section \<open>Random draws\<close>

text \<open>
  A random generator is the stream of uniform draws from \<open>[0, 1)\<close> it will deliver; a
  call that needs \<open>n\<close> draws takes the first \<open>n\<close> and leaves the rest. The program has
  two generators: the one of the tensor library, which \<^verbatim>\<open>Tensor.uniform\<close> and
  \<^verbatim>\<open>dropout\<close> read, and the global one of numpy, which \<^verbatim>\<open>np.random.choice\<close> reads.
\<close>

type_synonym rng = "nat \<Rightarrow> real"

definition rng_draws :: "nat \<Rightarrow> rng \<Rightarrow> real list" where
  "rng_draws n g = map g [0..<n]"

definition rng_skip :: "nat \<Rightarrow> rng \<Rightarrow> rng" where
  "rng_skip n g = (\<lambda>i. g (n + i))"

definition unit_draws :: "rng \<Rightarrow> bool" where
  "unit_draws g = (\<forall>i. 0 \<le> g i \<and> g i < 1)"

section \<open>Batch sampler: lines 68 to 74\<close>

text \<open>
  Modelled from the spec: \<^verbatim>\<open>Tensor.uniform(n, low, high)\<close> and \<^verbatim>\<open>Tensor.cast\<close> of the tensor
  library, which is not among the sources. The spec draws the offsets uniformly from
  \<open>[low, high)\<close>; the cast of a float to int32 drops the fraction. The draws are
  \<open>low + (high - low) * u\<close> for the next \<open>n\<close> values \<open>u\<close> of the generator.
\<close>

definition Tensor_uniform :: "nat \<Rightarrow> real \<Rightarrow> real \<Rightarrow> rng \<Rightarrow> real list" where
  "Tensor_uniform n low high g = map (\<lambda>u. (high - low) * u + low) (rng_draws n g)"

definition cast_int32 :: "real \<Rightarrow> int" where
  "cast_int32 x = (if 0 \<le> x then \<lfloor>x\<rfloor> else \<lceil>x\<rceil>)"

text \<open>Python's \<^verbatim>\<open>xs[a:b]\<close>: a negative bound counts from the end, and both are clamped.\<close>

definition py_slice :: "'a list \<Rightarrow> int \<Rightarrow> int \<Rightarrow> 'a list" where
  "py_slice xs a b =
     (let n = int (length xs);
          lo = (if a < 0 then max 0 (a + n) else min a n);
          hi = (if b < 0 then max 0 (b + n) else min b n)
      in drop (nat lo) (take (nat hi) xs))"

text \<open>
  Modelled from the spec: \<^verbatim>\<open>Tensor.stack\<close> of the tensor library. It makes one tensor of a
  non-empty list of rows of one length; it raises on an empty list and on rows of
  different lengths.
\<close>

definition Tensor_stack :: "'a list list \<Rightarrow> error + 'a list list" where
  "Tensor_stack rows =
     (case rows of
        [] \<Rightarrow> Inl IndexError
      | r # rs \<Rightarrow> if list_all (\<lambda>q. length q = length r) rs then Inr rows else Inl ShapeMismatch)"

text \<open>
  \<^verbatim>\<open>ix = Tensor.uniform(batch_size, low=0, high=(data.shape[0] - block_size)).cast(dtype=dtypes.int32)\<close>
\<close>

definition batch_offsets :: "hyper \<Rightarrow> int list \<Rightarrow> rng \<Rightarrow> int list" where
  "batch_offsets hp data g =
     map cast_int32
       (Tensor_uniform (batch_size hp) 0 (real_of_int (int (length data) - int (block_size hp))) g)"

text \<open>
  \<^verbatim>\<open>get_batch(split)\<close>. The globals \<^verbatim>\<open>train_data\<close> and \<^verbatim>\<open>val_data\<close> are arguments; the
  generator of the tensor library is passed in and returned advanced by the
  \<^verbatim>\<open>batch_size\<close> draws.
\<close>

definition get_batch ::
  "hyper \<Rightarrow> int list \<Rightarrow> int list \<Rightarrow> string \<Rightarrow> rng
    \<Rightarrow> error + ((int list list \<times> int list list) \<times> rng)" where
  "get_batch hp train_data val_data split g =
     (let data = (if split = ''train'' then train_data else val_data);
          ix = batch_offsets hp data g
      in case Tensor_stack (map (\<lambda>i. py_slice data i (i + int (block_size hp))) ix) of
           Inl e \<Rightarrow> Inl e
         | Inr x \<Rightarrow>
            (case Tensor_stack (map (\<lambda>i. py_slice data (i + 1) (i + int (block_size hp) + 1)) ix) of
               Inl e \<Rightarrow> Inl e
             | Inr y \<Rightarrow> Inr ((x, y), rng_skip (batch_size hp) g)))"


section \<open>Loss function: lines 44 to 52\<close>

text \<open>
  A tensor of any rank is its shape and its elements in row-major order; reshaping
  keeps the elements and changes the shape.
\<close>

record 'a tensor =
  shape :: "nat list"
  flat :: "'a list"

definition wf_tensor :: "'a tensor \<Rightarrow> bool" where
  "wf_tensor t = (length (flat t) = prod_list (shape t))"

text \<open>\<^verbatim>\<open>.astype(np.int32)\<close> of an integer array keeps the low 32 bits, read as signed.\<close>

definition astype_int32 :: "int \<Rightarrow> int" where
  "astype_int32 v = sint (word_of_int v :: 32 word)"

text \<open>\<^verbatim>\<open>np.zeros((n, m), np.float32)\<close>, by rows.\<close>

definition np_zeros :: "nat \<Rightarrow> nat \<Rightarrow> real list list" where
  "np_zeros n m = replicate n (replicate m 0)"

text \<open>
  \<^verbatim>\<open>y[range(y.shape[0]), YY] = v\<close>: in row \<open>r\<close> the entry of column \<open>YY[r]\<close> becomes
  \<open>v\<close>. numpy counts a negative column from the end and raises IndexError for a
  column outside \<open>[-m, m)\<close>.
\<close>

fun assign_cols :: "real list list \<Rightarrow> int list \<Rightarrow> real \<Rightarrow> error + real list list" where
  "assign_cols [] [] v = Inr []"
| "assign_cols (r # rs) (c # cs) v =
     (let m = int (length r); j = (if c < 0 then c + m else c)
      in if 0 \<le> j \<and> j < m
         then (case assign_cols rs cs v of
                 Inl e \<Rightarrow> Inl e
               | Inr rs' \<Rightarrow> Inr (r[nat j := v] # rs'))
         else Inl IndexError)"
| "assign_cols [] (c # cs) v = Inl IndexError"
| "assign_cols (r # rs) [] v = Inl IndexError"

text \<open>
  Modelled from the spec: \<^verbatim>\<open>Tensor.mul\<close> and \<^verbatim>\<open>Tensor.mean\<close> of the tensor library: the
  element-wise product, and the average over all elements. Operands of one shape are
  multiplied element by element; for operands of different shapes the library
  broadcasts or raises, and the model stops with \<open>ShapeMismatch\<close>. The mean of no
  element divides by zero.
\<close>

definition Tensor_mul :: "real tensor \<Rightarrow> real tensor \<Rightarrow> error + real tensor" where
  "Tensor_mul a b =
     (if shape a = shape b
      then Inr \<lparr> shape = shape a, flat = map2 (*) (flat a) (flat b) \<rparr>
      else Inl ShapeMismatch)"

definition Tensor_mean :: "real tensor \<Rightarrow> error + real" where
  "Tensor_mean a =
     (if flat a = [] then Inl ZeroDivisionError
      else Inr (sum_list (flat a) / real (length (flat a))))"

text \<open>
  \<^verbatim>\<open>cross_entropy(out, Y)\<close>. \<^verbatim>\<open>out.shape[-1]\<close> of a tensor without axes raises
  IndexError.
\<close>

definition cross_entropy :: "real tensor \<Rightarrow> int tensor \<Rightarrow> error + real" where
  "cross_entropy out Y =
     (if shape out = [] then Inl IndexError
      else
        let num_classes = last (shape out);
            YY = map astype_int32 (flat Y);
            y = np_zeros (length YY) num_classes
        in case assign_cols y YY (- 1 * real num_classes) of
             Inl e \<Rightarrow> Inl e
           | Inr y' \<Rightarrow>
              (case Tensor_mul out \<lparr> shape = shape Y @ [num_classes], flat = concat y' \<rparr> of
                 Inl e \<Rightarrow> Inl e
               | Inr p \<Rightarrow> Tensor_mean p))"

text \<open>
  The loss in the words of the spec: the target tensor holds \<open>- C\<close> at the true class
  of each row and 0 elsewhere, and the loss is the mean over all elements of its
  element-wise product with the output.
\<close>

definition target_tensor :: "nat \<Rightarrow> int list \<Rightarrow> real list" where
  "target_tensor C YY =
     concat (map (\<lambda>t. map (\<lambda>c. if int c = t then - real C else 0) [0..<C]) YY)"

definition spec_cross_entropy :: "real tensor \<Rightarrow> int tensor \<Rightarrow> real" where
  "spec_cross_entropy out Y =
     sum_list (map2 (*) (flat out) (target_tensor (last (shape out)) (flat Y)))
       / real (length (flat out))"

text \<open>
  The textbook loss: the mean over the rows of the negated log-probability of the
  true class.
\<close>

definition mean_nll :: "real tensor \<Rightarrow> int tensor \<Rightarrow> real" where
  "mean_nll out Y =
     (\<Sum>r\<leftarrow>[0..<length (flat Y)]. - (flat out ! (r * last (shape out) + nat (flat Y ! r))))
       / real (length (flat Y))"

text \<open>Class indices that name a class of \<open>C\<close> and fit 32 bits.\<close>

definition valid_targets :: "nat \<Rightarrow> int list \<Rightarrow> bool" where
  "valid_targets C YY = list_all (\<lambda>t. 0 \<le> t \<and> t < int C \<and> t < 2 ^ 31) YY"

section \<open>Tensors of the network\<close>

text \<open>
  Inside the network a tensor of shape \<open>(B, T, C)\<close> is a list of \<open>B\<close> matrices of \<open>T\<close>
  rows of \<open>C\<close> numbers. An operation that can raise returns a sum, and the first
  exception ends the computation.
\<close>

type_synonym vec = "real list"
type_synonym mat = "real list list"
type_synonym tensor3 = "real list list list"

definition ebind :: "error + 'a \<Rightarrow> ('a \<Rightarrow> error + 'b) \<Rightarrow> error + 'b" where
  "ebind m f = (case m of Inl e \<Rightarrow> Inl e | Inr x \<Rightarrow> f x)"

fun emap :: "('a \<Rightarrow> error + 'b) \<Rightarrow> 'a list \<Rightarrow> error + 'b list" where
  "emap f [] = Inr []"
| "emap f (x # xs) = ebind (f x) (\<lambda>y. ebind (emap f xs) (\<lambda>ys. Inr (y # ys)))"

definition is_mat :: "nat \<Rightarrow> nat \<Rightarrow> 'a list list \<Rightarrow> bool" where
  "is_mat n m x = (length x = n \<and> list_all (\<lambda>r. length r = m) x)"

definition is_tensor3 :: "nat \<Rightarrow> nat \<Rightarrow> nat \<Rightarrow> 'a list list list \<Rightarrow> bool" where
  "is_tensor3 b n m x = (length x = b \<and> list_all (is_mat n m) x)"

definition dot :: "vec \<Rightarrow> vec \<Rightarrow> real" where
  "dot a b = sum_list (map2 (*) a b)"

text \<open>\<open>a @ transpose(b)\<close>: entry \<open>(i, j)\<close> is the product of row \<open>i\<close> of \<open>a\<close> and row \<open>j\<close> of \<open>b\<close>.\<close>

definition matmul_nt :: "mat \<Rightarrow> mat \<Rightarrow> mat" where
  "matmul_nt a b = map (\<lambda>r. map (dot r) b) a"

text \<open>\<open>a @ b\<close>: entry \<open>(i, j)\<close> is the product of row \<open>i\<close> of \<open>a\<close> and column \<open>j\<close> of \<open>b\<close>.\<close>

definition ncols :: "'a list list \<Rightarrow> nat" where
  "ncols b = (case b of [] \<Rightarrow> 0 | r # _ \<Rightarrow> length r)"

definition matmul :: "mat \<Rightarrow> mat \<Rightarrow> mat" where
  "matmul a b = map (\<lambda>r. map (\<lambda>j. dot r (map (\<lambda>q. q ! j) b)) [0..<ncols b]) a"

text \<open>
  The sum of two tensors of one shape. For other shapes the library broadcasts or
  raises; the model stops with \<open>ShapeMismatch\<close>.
\<close>

definition Tensor_add :: "tensor3 \<Rightarrow> tensor3 \<Rightarrow> error + tensor3" where
  "Tensor_add a b =
     (if map (map length) a = map (map length) b
      then Inr (map2 (map2 (map2 (+))) a b)
      else Inl ShapeMismatch)"

section \<open>Layers of the tensor library\<close>

text \<open>
  Modelled from the spec: \<^verbatim>\<open>nn.Linear\<close>, \<^verbatim>\<open>nn.LayerNorm\<close>, \<^verbatim>\<open>nn.Embedding\<close>,
  \<^verbatim>\<open>Tensor.relu\<close>, \<^verbatim>\<open>Tensor.softmax\<close>, \<^verbatim>\<open>Tensor.log_softmax\<close> and \<^verbatim>\<open>Tensor.dropout\<close> of the
  tensor library, which is not among the sources. A linear layer maps each row \<open>r\<close>
  to \<open>r W\<^sup>T + b\<close> and refuses a row that has not its number of input features. A
  normalisation layer centres and scales each row to unit variance and applies its
  learned scale and shift. An embedding looks a row of its table up by index; an
  index that names no row selects none, which gives the zero row.
\<close>

record Linear =
  in_features :: nat
  out_features :: nat
  lin_weight :: mat
  lin_bias :: "vec option"

definition Linear_row :: "Linear \<Rightarrow> vec \<Rightarrow> error + vec" where
  "Linear_row l r =
     (if length r \<noteq> in_features l then Inl ShapeMismatch
      else Inr (let y = map (dot r) (lin_weight l)
                in case lin_bias l of None \<Rightarrow> y | Some b \<Rightarrow> map2 (+) y b))"

definition Linear_call :: "Linear \<Rightarrow> tensor3 \<Rightarrow> error + tensor3" where
  "Linear_call l x = emap (emap (Linear_row l)) x"

record LayerNorm =
  ln_weight :: vec
  ln_bias :: vec
  ln_eps :: real

definition layernorm :: "real \<Rightarrow> vec \<Rightarrow> vec" where
  "layernorm eps r =
     (let n = real (length r);
          mu = sum_list r / n;
          y = map (\<lambda>v. v - mu) r;
          var = sum_list (map (\<lambda>v. v * v) y) / n
      in map (\<lambda>v. v * (1 / sqrt (var + eps))) y)"

definition LayerNorm_row :: "LayerNorm \<Rightarrow> vec \<Rightarrow> error + vec" where
  "LayerNorm_row nrm r =
     (if r = [] then Inl ZeroDivisionError
      else if length r \<noteq> length (ln_weight nrm) \<or> length r \<noteq> length (ln_bias nrm)
      then Inl ShapeMismatch
      else Inr (map2 (+) (map2 (*) (layernorm (ln_eps nrm) r) (ln_weight nrm)) (ln_bias nrm)))"

definition LayerNorm_call :: "LayerNorm \<Rightarrow> tensor3 \<Rightarrow> error + tensor3" where
  "LayerNorm_call nrm x = emap (emap (LayerNorm_row nrm)) x"

record Embedding =
  embed_size :: nat
  emb_weight :: mat

definition Embedding_row :: "Embedding \<Rightarrow> int \<Rightarrow> vec" where
  "Embedding_row e i =
     (if 0 \<le> i \<and> i < int (length (emb_weight e)) then emb_weight e ! nat i
      else replicate (embed_size e) 0)"

definition Embedding_call :: "Embedding \<Rightarrow> int list list \<Rightarrow> tensor3" where
  "Embedding_call e idx = map (map (Embedding_row e)) idx"

definition Tensor_relu :: "tensor3 \<Rightarrow> tensor3" where
  "Tensor_relu x = map (map (map (max 0))) x"

text \<open>
  A score is a real number or the \<open>-inf\<close> that the causal mask adds. Adding \<open>-inf\<close> to
  a number gives \<open>-inf\<close>, and its exponential is 0. The softmax of a row divides the
  exponential of each entry by the sum of the exponentials of the row.
\<close>

datatype score = Fin real | NegInf

fun score_add :: "score \<Rightarrow> score \<Rightarrow> score" where
  "score_add (Fin a) (Fin b) = Fin (a + b)"
| "score_add _ _ = NegInf"

fun score_exp :: "score \<Rightarrow> real" where
  "score_exp (Fin a) = exp a"
| "score_exp NegInf = 0"

definition softmax :: "score list \<Rightarrow> vec" where
  "softmax xs = map (\<lambda>x. score_exp x / (\<Sum>y\<leftarrow>xs. score_exp y)) xs"

definition log_softmax :: "vec \<Rightarrow> vec" where
  "log_softmax xs = map (\<lambda>x. x - ln (\<Sum>y\<leftarrow>xs. exp y)) xs"

text \<open>
  Dropout returns its argument outside training. In training it draws one number per
  element in row-major order, keeps the elements whose draw is at least \<open>p\<close> and
  scales them by \<open>1 / (1 - p)\<close>; \<open>p = 1\<close> divides by zero.
\<close>

definition dropout_vec :: "real \<Rightarrow> vec \<Rightarrow> real list \<Rightarrow> vec" where
  "dropout_vec p r us = map2 (\<lambda>v u. v * (if p \<le> u then 1 else 0) * (1 / (1 - p))) r us"

fun dropout_mat :: "real \<Rightarrow> mat \<Rightarrow> rng \<Rightarrow> mat \<times> rng" where
  "dropout_mat p [] g = ([], g)"
| "dropout_mat p (r # rs) g =
     (let r' = dropout_vec p r (rng_draws (length r) g);
          (rs', g') = dropout_mat p rs (rng_skip (length r) g)
      in (r' # rs', g'))"

fun dropout_tensor3 :: "real \<Rightarrow> tensor3 \<Rightarrow> rng \<Rightarrow> tensor3 \<times> rng" where
  "dropout_tensor3 p [] g = ([], g)"
| "dropout_tensor3 p (m # ms) g =
     (let (m', g') = dropout_mat p m g;
          (ms', g'') = dropout_tensor3 p ms g'
      in (m' # ms', g''))"

definition Tensor_dropout :: "bool \<Rightarrow> real \<Rightarrow> tensor3 \<Rightarrow> rng \<Rightarrow> error + (tensor3 \<times> rng)" where
  "Tensor_dropout training p x g =
     (if \<not> training then Inr (x, g)
      else if p = 1 then Inl ZeroDivisionError
      else Inr (dropout_tensor3 p x g))"

section \<open>Attention head: lines 77 to 104\<close>

text \<open>
  \<^verbatim>\<open>np.triu(np.ones((T,T), dtype=np.float32) * -np.inf, k=1)\<close>: \<open>-inf\<close> where the column
  is at least one more than the row, 0 elsewhere.
\<close>

definition causal_mask :: "nat \<Rightarrow> score list list" where
  "causal_mask T = map (\<lambda>r. map (\<lambda>c. if r + 1 \<le> c then NegInf else Fin 0) [0..<T]) [0..<T]"

record Head =
  to_kqv :: Linear

text \<open>
  Lines 86 to 92: the projection, reshaped to \<open>(B, T, 3, head_size)\<close> and split. The
  reshape raises when the projected width is not a multiple of 3.
\<close>

definition Head_kqv :: "Head \<Rightarrow> tensor3 \<Rightarrow> error + (tensor3 \<times> tensor3 \<times> tensor3)" where
  "Head_kqv h x =
     ebind (Linear_call (to_kqv h) x) (\<lambda>kqv.
       if out_features (to_kqv h) mod 3 \<noteq> 0 then Inl ValueError
       else
         let hs = out_features (to_kqv h) div 3;
             k = map (map (take hs)) kqv;
             q = map (map (\<lambda>r. take hs (drop hs r))) kqv;
             v = map (map (\<lambda>r. take hs (drop (2 * hs) r))) kqv
         in Inr (k, q, v))"

text \<open>
  Lines 95 to 99 for one element of the batch: the scaled scores, the mask added, the
  softmax over the last axis. \<^verbatim>\<open>n_embd**-0.5\<close> raises for \<^verbatim>\<open>n_embd = 0\<close>.
\<close>

definition masked_scores :: "hyper \<Rightarrow> mat \<Rightarrow> mat \<Rightarrow> score list list" where
  "masked_scores hp q k =
     map2 (map2 score_add)
       (map (map (\<lambda>s. Fin (s * real (n_embd hp) powr (- (1 / 2))))) (matmul_nt q k))
       (causal_mask (length q))"

definition attention_weights :: "hyper \<Rightarrow> mat \<Rightarrow> mat \<Rightarrow> mat" where
  "attention_weights hp q k = map softmax (masked_scores hp q k)"

definition Head_weights :: "hyper \<Rightarrow> Head \<Rightarrow> tensor3 \<Rightarrow> error + tensor3" where
  "Head_weights hp h x =
     ebind (Head_kqv h x) (\<lambda>(k, q, v).
       if n_embd hp = 0 then Inl ZeroDivisionError
       else Inr (map2 (attention_weights hp) q k))"

definition Head_call :: "hyper \<Rightarrow> bool \<Rightarrow> Head \<Rightarrow> tensor3 \<Rightarrow> rng \<Rightarrow> error + (tensor3 \<times> rng)" where
  "Head_call hp training h x g =
     ebind (Head_kqv h x) (\<lambda>(k, q, v).
     ebind (Head_weights hp h x) (\<lambda>wei.
     ebind (Tensor_dropout training (dropout hp) wei g) (\<lambda>(wei', g').
       Inr (map2 matmul wei' v, g'))))"

section \<open>Multi-head attention, feed-forward and block: lines 107 to 147\<close>

text \<open>
  \<^verbatim>\<open>a.cat(*others, dim=-1)\<close> joins tensors that agree in all axes but the last, row by
  row. As with the other operations, a disagreement ends in \<open>ShapeMismatch\<close>.
\<close>

definition cat_last :: "tensor3 \<Rightarrow> tensor3 \<Rightarrow> error + tensor3" where
  "cat_last a b =
     (if map length a = map length b then Inr (map2 (map2 (@)) a b) else Inl ShapeMismatch)"

fun Tensor_cat :: "tensor3 \<Rightarrow> tensor3 list \<Rightarrow> error + tensor3" where
  "Tensor_cat a [] = Inr a"
| "Tensor_cat a (b # bs) = ebind (cat_last a b) (\<lambda>ab. Tensor_cat ab bs)"

record MultiHeadAttention =
  heads :: "Head list"
  proj :: Linear

text \<open>\<^verbatim>\<open>[h(x) for h in hs]\<close>, each head reading the generator after the one before.\<close>

fun run_heads ::
  "hyper \<Rightarrow> bool \<Rightarrow> Head list \<Rightarrow> tensor3 \<Rightarrow> rng \<Rightarrow> error + (tensor3 list \<times> rng)" where
  "run_heads hp training [] x g = Inr ([], g)"
| "run_heads hp training (h # hs) x g =
     ebind (Head_call hp training h x g) (\<lambda>(out, g').
     ebind (run_heads hp training hs x g') (\<lambda>(outs, g'').
       Inr (out # outs, g'')))"

text \<open>
  \<^verbatim>\<open>out = self.heads[0](x).cat(*[h(x) for h in self.heads[1:]], dim=-1)\<close> and
  \<^verbatim>\<open>out = self.proj(out).dropout(dropout)\<close>. \<^verbatim>\<open>self.heads[0]\<close> of an empty list raises
  IndexError.
\<close>

definition MultiHeadAttention_call ::
  "hyper \<Rightarrow> bool \<Rightarrow> MultiHeadAttention \<Rightarrow> tensor3 \<Rightarrow> rng \<Rightarrow> error + (tensor3 \<times> rng)" where
  "MultiHeadAttention_call hp training m x g =
     (case heads m of
        [] \<Rightarrow> Inl IndexError
      | h # hs \<Rightarrow>
          ebind (Head_call hp training h x g) (\<lambda>(out0, g1).
          ebind (run_heads hp training hs x g1) (\<lambda>(outs, g2).
          ebind (Tensor_cat out0 outs) (\<lambda>out.
          ebind (Linear_call (proj m) out) (\<lambda>out'.
            Tensor_dropout training (dropout hp) out' g2)))))"

text \<open>\<^verbatim>\<open>self.net = [nn.Linear(n_embd, 4 * n_embd), Tensor.relu, nn.Linear(4 * n_embd, n_embd)]\<close>\<close>

record FeedForward =
  net_0 :: Linear
  net_2 :: Linear

definition FeedForward_call ::
  "hyper \<Rightarrow> bool \<Rightarrow> FeedForward \<Rightarrow> tensor3 \<Rightarrow> rng \<Rightarrow> error + (tensor3 \<times> rng)" where
  "FeedForward_call hp training f x g =
     ebind (Linear_call (net_0 f) x) (\<lambda>a.
     ebind (Linear_call (net_2 f) (Tensor_relu a)) (\<lambda>b.
       Tensor_dropout training (dropout hp) b g))"

record Block =
  sa :: MultiHeadAttention
  ffwd :: FeedForward
  ln1 :: LayerNorm
  ln2 :: LayerNorm

text \<open>\<^verbatim>\<open>x = x + self.sa(self.ln1(x))\<close> and \<^verbatim>\<open>x = x + self.ffwd(self.ln2(x))\<close>.\<close>

definition Block_call ::
  "hyper \<Rightarrow> bool \<Rightarrow> Block \<Rightarrow> tensor3 \<Rightarrow> rng \<Rightarrow> error + (tensor3 \<times> rng)" where
  "Block_call hp training blk x g =
     ebind (LayerNorm_call (ln1 blk) x) (\<lambda>n1.
     ebind (MultiHeadAttention_call hp training (sa blk) n1 g) (\<lambda>(a, g1).
     ebind (Tensor_add x a) (\<lambda>x1.
     ebind (LayerNorm_call (ln2 blk) x1) (\<lambda>n2.
     ebind (FeedForward_call hp training (ffwd blk) n2 g1) (\<lambda>(f, g2).
     ebind (Tensor_add x1 f) (\<lambda>x2.
       Inr (x2, g2)))))))"

section \<open>Language model: lines 150 to 203\<close>

record GPTLanguageModel =
  token_embedding_table :: Embedding
  position_embedding_table :: Embedding
  blocks :: "Block list"
  ln_f :: LayerNorm
  lm_head :: Linear

text \<open>
  \<^verbatim>\<open>Tensor.arange(T, dtype=dtypes.int8)\<close>: the numbers \<open>0 .. T - 1\<close> stored in 8 bits each.
  An int8 holds the values \<open>-128 .. 127\<close>; the cast keeps the low 8 bits.
\<close>

definition arange_int8 :: "nat \<Rightarrow> 8 word list" where
  "arange_int8 T = map word_of_nat [0..<T]"

text \<open>The position indices as the embedding reads them, of shape \<open>(1, T)\<close>.\<close>

definition position_indices :: "nat \<Rightarrow> int list list" where
  "position_indices T = [map sint (arange_int8 T)]"

text \<open>\<^verbatim>\<open>for block in self.blocks: x = block(x)\<close>\<close>

fun run_blocks ::
  "hyper \<Rightarrow> bool \<Rightarrow> Block list \<Rightarrow> tensor3 \<Rightarrow> rng \<Rightarrow> error + (tensor3 \<times> rng)" where
  "run_blocks hp training [] x g = Inr (x, g)"
| "run_blocks hp training (blk # blks) x g =
     ebind (Block_call hp training blk x g) (\<lambda>(x', g'). run_blocks hp training blks x' g')"

text \<open>
  Lines 162 to 170: the logits. \<^verbatim>\<open>tok_emb + pos_emb\<close> adds the one matrix of position
  embeddings to every element of the batch.
\<close>

definition GPT_logits ::
  "hyper \<Rightarrow> bool \<Rightarrow> GPTLanguageModel \<Rightarrow> int list list \<Rightarrow> rng \<Rightarrow> error + (tensor3 \<times> rng)" where
  "GPT_logits hp training m idx g =
     (let T = ncols idx;
          tok_emb = Embedding_call (token_embedding_table m) idx;
          pos_emb = Embedding_call (position_embedding_table m) (position_indices T)
      in ebind (Tensor_add tok_emb (concat (replicate (length tok_emb) pos_emb))) (\<lambda>x.
         ebind (run_blocks hp training (blocks m) x g) (\<lambda>(x', g').
         ebind (LayerNorm_call (ln_f m) x') (\<lambda>x''.
         ebind (Linear_call (lm_head m) x'') (\<lambda>logits.
           Inr (logits, g'))))))"

text \<open>The shape and the elements of a nested tensor, for the loss function.\<close>

definition tensor_of3 :: "'a list list list \<Rightarrow> 'a tensor" where
  "tensor_of3 x = \<lparr> shape = [length x, ncols x, ncols (concat x)], flat = concat (concat x) \<rparr>"

definition tensor_of2 :: "'a list list \<Rightarrow> 'a tensor" where
  "tensor_of2 x = \<lparr> shape = [length x, ncols x], flat = concat x \<rparr>"

text \<open>
  \<^verbatim>\<open>GPTLanguageModel.__call__(idx, targets=None)\<close>: the logits, and the loss when targets
  are given.
\<close>

definition GPTLanguageModel_call ::
  "hyper \<Rightarrow> bool \<Rightarrow> GPTLanguageModel \<Rightarrow> int list list \<Rightarrow> int list list option \<Rightarrow> rng
    \<Rightarrow> error + ((tensor3 \<times> real option) \<times> rng)" where
  "GPTLanguageModel_call hp training m idx targets g =
     ebind (GPT_logits hp training m idx g) (\<lambda>(logits, g').
       case targets of
         None \<Rightarrow> Inr ((logits, None), g')
       | Some Y \<Rightarrow>
           (let predictions = map (map log_softmax) logits
            in ebind (cross_entropy (tensor_of3 predictions) (tensor_of2 Y)) (\<lambda>loss.
                 Inr ((logits, Some loss), g'))))"

section \<open>Parameters as the constructors build them\<close>

definition wf_Linear :: "nat \<Rightarrow> nat \<Rightarrow> bool \<Rightarrow> Linear \<Rightarrow> bool" where
  "wf_Linear i out has_bias l =
     (in_features l = i \<and> out_features l = out \<and> is_mat out i (lin_weight l)
      \<and> (case lin_bias l of None \<Rightarrow> \<not> has_bias | Some b \<Rightarrow> has_bias \<and> length b = out))"

definition wf_LayerNorm :: "nat \<Rightarrow> LayerNorm \<Rightarrow> bool" where
  "wf_LayerNorm n nrm = (length (ln_weight nrm) = n \<and> length (ln_bias nrm) = n \<and> 0 < ln_eps nrm)"

definition wf_Embedding :: "nat \<Rightarrow> nat \<Rightarrow> Embedding \<Rightarrow> bool" where
  "wf_Embedding n d e = (embed_size e = d \<and> is_mat n d (emb_weight e))"

definition wf_Head :: "hyper \<Rightarrow> Head \<Rightarrow> bool" where
  "wf_Head hp h = wf_Linear (n_embd hp) (3 * (n_embd hp div n_head hp)) False (to_kqv h)"

definition wf_MultiHeadAttention :: "hyper \<Rightarrow> MultiHeadAttention \<Rightarrow> bool" where
  "wf_MultiHeadAttention hp m =
     (length (heads m) = n_head hp \<and> list_all (wf_Head hp) (heads m)
      \<and> wf_Linear (n_embd hp) (n_embd hp) True (proj m))"

definition wf_FeedForward :: "hyper \<Rightarrow> FeedForward \<Rightarrow> bool" where
  "wf_FeedForward hp f =
     (wf_Linear (n_embd hp) (4 * n_embd hp) True (net_0 f)
      \<and> wf_Linear (4 * n_embd hp) (n_embd hp) True (net_2 f))"

definition wf_Block :: "hyper \<Rightarrow> Block \<Rightarrow> bool" where
  "wf_Block hp blk =
     (wf_MultiHeadAttention hp (sa blk) \<and> wf_FeedForward hp (ffwd blk)
      \<and> wf_LayerNorm (n_embd hp) (ln1 blk) \<and> wf_LayerNorm (n_embd hp) (ln2 blk))"

definition wf_GPTLanguageModel :: "hyper \<Rightarrow> nat \<Rightarrow> GPTLanguageModel \<Rightarrow> bool" where
  "wf_GPTLanguageModel hp V m =
     (wf_Embedding V (n_embd hp) (token_embedding_table m)
      \<and> wf_Embedding (block_size hp) (n_embd hp) (position_embedding_table m)
      \<and> length (blocks m) = n_layer hp \<and> list_all (wf_Block hp) (blocks m)
      \<and> wf_LayerNorm (n_embd hp) (ln_f m)
      \<and> wf_Linear (n_embd hp) V True (lm_head m))"

text \<open>
  Hyperparameters for which the constructed network fits together: the heads divide
  the embedding evenly, and the dropout rate is a probability below 1.
\<close>

definition wf_hyper :: "hyper \<Rightarrow> bool" where
  "wf_hyper hp =
     (0 < n_embd hp \<and> 0 < n_head hp \<and> n_embd hp mod n_head hp = 0
      \<and> 0 \<le> dropout hp \<and> dropout hp < 1)"

section \<open>Global state of the program\<close>

text \<open>
  The flag and the generators the program reads and writes: \<^verbatim>\<open>Tensor.training\<close>, which
  lines 56, 64, 255 and 273 assign and no other line; the generator of the tensor
  library, which \<^verbatim>\<open>Tensor.manual_seed\<close> seeds and \<^verbatim>\<open>Tensor.uniform\<close> and \<^verbatim>\<open>dropout\<close> read;
  and the global generator of numpy, which \<^verbatim>\<open>np.random.choice\<close> reads.

  Modelled from the spec: \<^verbatim>\<open>Tensor.training\<close> is the mode of the tensor library. When it
  is set, dropout is active and gradients are tracked; when it is not, the mode is
  evaluation, dropout is disabled and no gradients are tracked. The embedding has
  dropout and no gradients.
\<close>

record world =
  Tensor_training :: bool
  Tensor_rng :: rng
  np_random :: rng

text \<open>The forward pass under the global flag and the generator of the tensor library.\<close>

definition model_call ::
  "hyper \<Rightarrow> GPTLanguageModel \<Rightarrow> int list list \<Rightarrow> int list list option \<Rightarrow> world
    \<Rightarrow> error + ((tensor3 \<times> real option) \<times> world)" where
  "model_call hp m idx targets w =
     ebind (GPTLanguageModel_call hp (Tensor_training w) m idx targets (Tensor_rng w))
       (\<lambda>(r, g'). Inr (r, w\<lparr>Tensor_rng := g'\<rparr>))"

section \<open>Generation: lines 180 to 203\<close>

text \<open>
  \<^verbatim>\<open>np.random.choice(n, size=1, p=p)\<close> of numpy: it refuses an empty \<open>p\<close>, a negative
  entry and a sum that differs from 1 by more than the tolerance of float32; it then
  draws one uniform number \<open>u\<close> and returns the first index at which the normalised
  running sum of \<open>p\<close> exceeds \<open>u\<close>.
\<close>

fun cumsum_from :: "real \<Rightarrow> real list \<Rightarrow> real list" where
  "cumsum_from a [] = []"
| "cumsum_from a (x # xs) = (a + x) # cumsum_from (a + x) xs"

definition choice_atol :: real where
  "choice_atol = sqrt (1 / 2 ^ 23)"

definition np_random_choice :: "vec \<Rightarrow> real \<Rightarrow> error + nat" where
  "np_random_choice p u =
     (if p = [] then Inl ValueError
      else if list_ex (\<lambda>x. x < 0) p then Inl ValueError
      else if choice_atol < \<bar>sum_list p - 1\<bar> then Inl ValueError
      else
        let cdf = cumsum_from 0 p;
            cdf' = map (\<lambda>c. c / last cdf) cdf
        in Inr (length (takeWhile (\<lambda>c. c \<le> u) cdf')))"

text \<open>
  \<^verbatim>\<open>idx_next = [np.random.choice(len(p), size=1, p=p) for p in probs.numpy()]\<close>: one
  draw per row of the batch, in order.
\<close>

fun sample_rows :: "mat \<Rightarrow> rng \<Rightarrow> error + (nat list \<times> rng)" where
  "sample_rows [] g = Inr ([], g)"
| "sample_rows (p # ps) g =
     ebind (np_random_choice p (g 0)) (\<lambda>i.
     ebind (sample_rows ps (rng_skip 1 g)) (\<lambda>(js, g').
       Inr (i # js, g')))"

text \<open>\<^verbatim>\<open>idx[:, -block_size:]\<close>: the last \<^verbatim>\<open>block_size\<close> tokens of every row.\<close>

definition crop :: "hyper \<Rightarrow> int list list \<Rightarrow> int list list" where
  "crop hp idx = map (\<lambda>row. py_slice row (- int (block_size hp)) (int (length row))) idx"

text \<open>\<^verbatim>\<open>logits[:, -1, :]\<close>: the last time step; an empty time axis raises IndexError.\<close>

definition last_step :: "tensor3 \<Rightarrow> error + mat" where
  "last_step logits = emap (\<lambda>mt. if mt = [] then Inl IndexError else Inr (last mt)) logits"

text \<open>\<^verbatim>\<open>Tensor.cat(idx, Tensor(idx_next), dim=1)\<close>: one new column.\<close>

definition cat_dim1 :: "int list list \<Rightarrow> nat list \<Rightarrow> error + int list list" where
  "cat_dim1 idx idx_next =
     (if length idx = length idx_next
      then Inr (map2 (\<lambda>row i. row @ [int i]) idx idx_next)
      else Inl ShapeMismatch)"

text \<open>
  The variables of the loop, the global state, and a log of what each pass through
  the body did: the context and the global state it started from, the cropped context
  it passed to the forward pass, the logits and the global state that came back, and
  the tokens it sampled. The log is not a variable of the program; it is kept to
  state what the loop does.
\<close>

record step_log =
  sl_idx :: "int list list"
  sl_world :: world
  sl_cond :: "int list list"
  sl_logits :: tensor3
  sl_after :: world
  sl_next :: "nat list"

record 'a gen_state =
  gen_idx :: "int list list"
  gen_out :: "'a list"
  gen_world :: world
  gen_steps :: "step_log list"

text \<open>One pass through the body of the loop, lines 185 to 202.\<close>

definition generate_step ::
  "hyper \<Rightarrow> GPTLanguageModel \<Rightarrow> 'a::linorder list \<Rightarrow> 'a gen_state \<Rightarrow> error + 'a gen_state" where
  "generate_step hp m corpus st =
     (let idx_cond = crop hp (gen_idx st)
      in ebind (model_call hp m idx_cond None (gen_world st)) (\<lambda>((logits, _), w).
         ebind (last_step logits) (\<lambda>logits'.
         let probs = map (\<lambda>l. softmax (map Fin l)) logits'
         in ebind (sample_rows probs (np_random w)) (\<lambda>(idx_next, ng).
            case idx_next of
              [] \<Rightarrow> Inl IndexError
            | i0 # _ \<Rightarrow>
                ebind (decode corpus [int i0]) (\<lambda>token.
                ebind (cat_dim1 (gen_idx st) idx_next) (\<lambda>idx'.
                  Inr \<lparr> gen_idx = crop hp idx',
                        gen_out = gen_out st @ token,
                        gen_world = w\<lparr>np_random := ng\<rparr>,
                        gen_steps = gen_steps st @
                          [\<lparr> sl_idx = gen_idx st, sl_world = gen_world st,
                             sl_cond = idx_cond, sl_logits = logits, sl_after = w,
                             sl_next = idx_next \<rparr>] \<rparr>))))))"

text \<open>The context with the sampled tokens appended and cropped, lines 199 and 202.\<close>

definition append_tokens :: "hyper \<Rightarrow> int list list \<Rightarrow> nat list \<Rightarrow> int list list" where
  "append_tokens hp idx idx_next = crop hp (map2 (\<lambda>row i. row @ [int i]) idx idx_next)"

text \<open>\<^verbatim>\<open>for _ in range(max_new_tokens)\<close>\<close>

fun generate_loop ::
  "hyper \<Rightarrow> GPTLanguageModel \<Rightarrow> 'a::linorder list \<Rightarrow> nat \<Rightarrow> 'a gen_state \<Rightarrow> error + 'a gen_state" where
  "generate_loop hp m corpus 0 st = Inr st"
| "generate_loop hp m corpus (Suc n) st =
     ebind (generate_step hp m corpus st) (generate_loop hp m corpus n)"

text \<open>
  \<^verbatim>\<open>generate(idx, max_new_tokens)\<close>. The result is the final state; its \<open>gen_out\<close> is
  the string the method returns.
\<close>

definition generate ::
  "hyper \<Rightarrow> GPTLanguageModel \<Rightarrow> 'a::linorder list \<Rightarrow> int list list \<Rightarrow> nat \<Rightarrow> world
    \<Rightarrow> error + 'a gen_state" where
  "generate hp m corpus idx max_new_tokens w =
     generate_loop hp m corpus max_new_tokens
       \<lparr> gen_idx = idx, gen_out = [], gen_world = w, gen_steps = [] \<rparr>"

text \<open>
  What it means that the token \<open>k\<close> is sampled from the categorical distribution \<open>p\<close>
  with the uniform draw \<open>u\<close>: \<open>u\<close> lies in the \<open>k\<close>-th interval of the running sum of
  \<open>p\<close>, whose length is \<open>p ! k\<close>. A draw uniform in \<open>[0, 1)\<close> therefore gives \<open>k\<close> with
  probability \<open>p ! k\<close>.
\<close>

definition inverse_cdf :: "vec \<Rightarrow> real \<Rightarrow> nat \<Rightarrow> bool" where
  "inverse_cdf p u k =
     (k < length p \<and> sum_list (take k p) \<le> u \<and> u < sum_list (take (Suc k) p))"

text \<open>
  What one pass through the body does, read off its log entry: the context is
  cropped to the last \<^verbatim>\<open>block_size\<close> tokens and has shape \<open>(B, Tc)\<close>; the forward pass
  runs on it without targets, returns logits of shape \<open>(B, Tc, V)\<close> and leaves the
  generator of numpy as it was; the logits of the last position of every row are
  softmaxed into positive numbers of sum 1, and the token of row \<open>b\<close>, below \<open>V\<close>, is
  the one that draw \<open>b\<close> of the generator of numpy selects from that distribution.
\<close>

definition step_facts ::
  "hyper \<Rightarrow> GPTLanguageModel \<Rightarrow> nat \<Rightarrow> nat \<Rightarrow> nat \<Rightarrow> step_log \<Rightarrow> bool" where
  "step_facts hp m B Tc V e =
     (sl_cond e = crop hp (sl_idx e)
      \<and> is_mat B Tc (sl_cond e)
      \<and> model_call hp m (sl_cond e) None (sl_world e) = Inr ((sl_logits e, None), sl_after e)
      \<and> is_tensor3 B Tc V (sl_logits e)
      \<and> sample_rows (map (\<lambda>mt. softmax (map Fin (last mt))) (sl_logits e))
            (np_random (sl_after e))
          = Inr (sl_next e, rng_skip B (np_random (sl_after e)))
      \<and> length (sl_next e) = B
      \<and> list_all (\<lambda>t. t < V) (sl_next e)
      \<and> np_random (sl_after e) = np_random (sl_world e)
      \<and> (\<forall>b < B.
            length (last (sl_logits e ! b)) = V
            \<and> list_all (\<lambda>x. 0 < x) (softmax (map Fin (last (sl_logits e ! b))))
            \<and> sum_list (softmax (map Fin (last (sl_logits e ! b)))) = 1
            \<and> inverse_cdf (softmax (map Fin (last (sl_logits e ! b))))
                  (np_random (sl_world e) b) (sl_next e ! b)))"

section \<open>Evaluation and training loop: lines 54 to 65 and 255 to 273\<close>












section \<open>Seeding: line 14\<close>

text \<open>
  Modelled from the spec: \<^verbatim>\<open>Tensor.manual_seed(seed)\<close> of the tensor library, which is
  not among the sources. It sets the generator of the tensor library, from which
  \<^verbatim>\<open>Tensor.uniform\<close> and \<^verbatim>\<open>dropout\<close> draw, to the state that the seed determines; \<open>prng\<close>
  is the function from the seed to that state. The global generator of numpy, from
  which \<^verbatim>\<open>np.random.choice\<close> draws, is seeded by \<^verbatim>\<open>np.random.seed\<close>, which no line of
  the program calls; line 14 is the only seeding call.
\<close>

definition Tensor_manual_seed :: "(int \<Rightarrow> rng) \<Rightarrow> int \<Rightarrow> world \<Rightarrow> world" where
  "Tensor_manual_seed prng seed w = w\<lparr>Tensor_rng := prng seed\<rparr>"

text \<open>A sequence of calls of the batch sampler, each reading the generator after the one before.\<close>

fun get_batches ::
  "hyper \<Rightarrow> int list \<Rightarrow> int list \<Rightarrow> string list \<Rightarrow> world
    \<Rightarrow> error + ((int list list \<times> int list list) list \<times> world)" where
  "get_batches hp train_data val_data [] w = Inr ([], w)"
| "get_batches hp train_data val_data (split # splits) w =
     ebind (get_batch hp train_data val_data split (Tensor_rng w)) (\<lambda>(xy, g).
     ebind (get_batches hp train_data val_data splits (w\<lparr>Tensor_rng := g\<rparr>)) (\<lambda>(xys, w').
       Inr (xy # xys, w')))"

text \<open>The string that \<^verbatim>\<open>generate\<close> returns, line 203.\<close>

definition generate_output ::
  "hyper \<Rightarrow> GPTLanguageModel \<Rightarrow> 'a::linorder list \<Rightarrow> int list list \<Rightarrow> nat \<Rightarrow> world
    \<Rightarrow> error + 'a list" where
  "generate_output hp m corpus idx max_new_tokens w =
     ebind (generate hp m corpus idx max_new_tokens w) (\<lambda>st. Inr (gen_out st))"

section \<open>Float32 infinities and NaN in the loss: lines 170 to 178 and 44 to 52\<close>

text \<open>
  The numbers of the program are float32, which has two infinities and NaN. The
  sections above take them as real numbers. This section keeps the infinities and NaN
  for the last steps of the forward pass, from the hidden state that line 169 assigns
  to the loss that line 178 returns. A result beyond the largest float32 becomes an
  infinity, \<open>inf - inf\<close> and \<open>0 * inf\<close> are NaN, and NaN propagates; the rounding of a
  result within the range is not modelled.
\<close>

datatype f32 = Num real | PInf | MInf | NaN

definition f32_max :: real where
  "f32_max = (2 - 1 / 2 ^ 23) * 2 ^ 127"

definition f32_round :: "real \<Rightarrow> f32" where
  "f32_round x = (if f32_max < x then PInf else if x < - f32_max then MInf else Num x)"

fun f32_neg :: "f32 \<Rightarrow> f32" where
  "f32_neg (Num a) = Num (- a)"
| "f32_neg PInf = MInf"
| "f32_neg MInf = PInf"
| "f32_neg NaN = NaN"

fun f32_add :: "f32 \<Rightarrow> f32 \<Rightarrow> f32" where
  "f32_add (Num a) (Num b) = f32_round (a + b)"
| "f32_add NaN _ = NaN"
| "f32_add _ NaN = NaN"
| "f32_add PInf MInf = NaN"
| "f32_add MInf PInf = NaN"
| "f32_add PInf _ = PInf"
| "f32_add _ PInf = PInf"
| "f32_add MInf _ = MInf"
| "f32_add _ MInf = MInf"

definition f32_sub :: "f32 \<Rightarrow> f32 \<Rightarrow> f32" where
  "f32_sub a b = f32_add a (f32_neg b)"

text \<open>An infinity times a number has the sign of the product; times 0 it is NaN.\<close>

definition f32_signed_inf :: "real \<Rightarrow> f32" where
  "f32_signed_inf a = (if a = 0 then NaN else if 0 < a then PInf else MInf)"

fun f32_mul :: "f32 \<Rightarrow> f32 \<Rightarrow> f32" where
  "f32_mul (Num a) (Num b) = f32_round (a * b)"
| "f32_mul NaN _ = NaN"
| "f32_mul _ NaN = NaN"
| "f32_mul (Num a) PInf = f32_signed_inf a"
| "f32_mul (Num a) MInf = f32_signed_inf (- a)"
| "f32_mul PInf (Num b) = f32_signed_inf b"
| "f32_mul MInf (Num b) = f32_signed_inf (- b)"
| "f32_mul PInf PInf = PInf"
| "f32_mul MInf MInf = PInf"
| "f32_mul PInf MInf = MInf"
| "f32_mul MInf PInf = MInf"

fun f32_exp :: "f32 \<Rightarrow> f32" where
  "f32_exp (Num a) = f32_round (exp a)"
| "f32_exp PInf = PInf"
| "f32_exp MInf = Num 0"
| "f32_exp NaN = NaN"

fun f32_log :: "f32 \<Rightarrow> f32" where
  "f32_log (Num a) = (if a < 0 then NaN else if a = 0 then MInf else Num (ln a))"
| "f32_log PInf = PInf"
| "f32_log MInf = NaN"
| "f32_log NaN = NaN"

fun f32_maximum :: "f32 \<Rightarrow> f32 \<Rightarrow> f32" where
  "f32_maximum (Num a) (Num b) = Num (max a b)"
| "f32_maximum NaN _ = NaN"
| "f32_maximum _ NaN = NaN"
| "f32_maximum PInf _ = PInf"
| "f32_maximum _ PInf = PInf"
| "f32_maximum MInf b = b"
| "f32_maximum a MInf = a"

fun f32_div_count :: "f32 \<Rightarrow> nat \<Rightarrow> f32" where
  "f32_div_count (Num a) n = f32_round (a / real n)"
| "f32_div_count v n = v"

definition f32_sum :: "f32 list \<Rightarrow> f32" where
  "f32_sum xs = foldl f32_add (Num 0) xs"

definition f32_finite :: "f32 \<Rightarrow> bool" where
  "f32_finite v = (case v of Num a \<Rightarrow> True | _ \<Rightarrow> False)"

text \<open>
  Modelled from the spec: \<^verbatim>\<open>nn.Linear\<close>, \<^verbatim>\<open>Tensor.log_softmax\<close>, \<^verbatim>\<open>Tensor.mul\<close> and
  \<^verbatim>\<open>Tensor.mean\<close> of the tensor library on float32. The parameters of a layer are
  numbers. The log-softmax of a row subtracts the logarithm of the sum of the
  exponentials; a library computes it either on the row as it is, or on the row with
  its maximum subtracted first, and \<open>shift\<close> chooses between the two.
\<close>

definition Linear_row_f32 :: "Linear \<Rightarrow> f32 list \<Rightarrow> error + f32 list" where
  "Linear_row_f32 l r =
     (if length r \<noteq> in_features l then Inl ShapeMismatch
      else Inr (let y = map (\<lambda>w. f32_sum (map2 f32_mul r (map Num w))) (lin_weight l)
                in case lin_bias l of None \<Rightarrow> y | Some b \<Rightarrow> map2 f32_add y (map Num b)))"

definition Linear_call_f32 :: "Linear \<Rightarrow> f32 list list list \<Rightarrow> error + f32 list list list" where
  "Linear_call_f32 l x = emap (emap (Linear_row_f32 l)) x"

definition log_softmax_f32 :: "bool \<Rightarrow> f32 list \<Rightarrow> f32 list" where
  "log_softmax_f32 shift xs =
     (let m = (if shift then map (\<lambda>x. f32_sub x (foldl f32_maximum MInf xs)) xs else xs);
          ss = f32_sum (map f32_exp m)
      in map (\<lambda>v. f32_sub v (f32_log ss)) m)"

definition Tensor_mul_f32 :: "f32 tensor \<Rightarrow> f32 tensor \<Rightarrow> error + f32 tensor" where
  "Tensor_mul_f32 a b =
     (if shape a = shape b
      then Inr \<lparr> shape = shape a, flat = map2 f32_mul (flat a) (flat b) \<rparr>
      else Inl ShapeMismatch)"

definition Tensor_mean_f32 :: "f32 tensor \<Rightarrow> error + f32" where
  "Tensor_mean_f32 a =
     (if flat a = [] then Inl ZeroDivisionError
      else Inr (f32_div_count (f32_sum (flat a)) (length (flat a))))"

text \<open>
  \<^verbatim>\<open>cross_entropy(out, Y)\<close>, lines 44 to 52, on float32: the target tensor is built by
  numpy as above, and \<^verbatim>\<open>out.mul(y).mean()\<close> is computed on float32.
\<close>

definition cross_entropy_f32 :: "f32 tensor \<Rightarrow> int tensor \<Rightarrow> error + f32" where
  "cross_entropy_f32 out Y =
     (if shape out = [] then Inl IndexError
      else
        let num_classes = last (shape out);
            YY = map astype_int32 (flat Y);
            y = np_zeros (length YY) num_classes
        in case assign_cols y YY (- 1 * real num_classes) of
             Inl e \<Rightarrow> Inl e
           | Inr y' \<Rightarrow>
              (case Tensor_mul_f32 out
                      \<lparr> shape = shape Y @ [num_classes], flat = map Num (concat y') \<rparr> of
                 Inl e \<Rightarrow> Inl e
               | Inr p \<Rightarrow> Tensor_mean_f32 p))"

text \<open>
  Lines 170 to 178 with targets, on float32: the logits of the hidden state \<open>x\<close> that
  line 169 assigned, their log-softmax, and the loss.
\<close>

definition lm_head_loss_f32 ::
  "bool \<Rightarrow> GPTLanguageModel \<Rightarrow> f32 list list list \<Rightarrow> int list list \<Rightarrow> error + f32" where
  "lm_head_loss_f32 shift m x targets =
     ebind (Linear_call_f32 (lm_head m) x) (\<lambda>logits.
       let predictions = map (map (log_softmax_f32 shift)) logits
       in cross_entropy_f32 (tensor_of3 predictions) (tensor_of2 targets))"

section \<open>A small network for examples\<close>

text \<open>
  A network of one block with one head, an embedding of width 1 and a vocabulary of
  two tokens, for a block size \<open>bs\<close>.
\<close>

definition example_hyper :: "nat \<Rightarrow> hyper" where
  "example_hyper bs = tinygpt_hyper\<lparr>block_size := bs, n_embd := 1, n_head := 1, n_layer := 1\<rparr>"

definition example_block :: Block where
  "example_block =
     \<lparr> sa = \<lparr> heads = [\<lparr> to_kqv = \<lparr> in_features = 1, out_features = 3,
                                      lin_weight = [[1], [1], [1]], lin_bias = None \<rparr> \<rparr>],
              proj = \<lparr> in_features = 1, out_features = 1, lin_weight = [[1]],
                       lin_bias = Some [0] \<rparr> \<rparr>,
       ffwd = \<lparr> net_0 = \<lparr> in_features = 1, out_features = 4,
                         lin_weight = [[1], [1], [1], [1]], lin_bias = Some [0, 0, 0, 0] \<rparr>,
                net_2 = \<lparr> in_features = 4, out_features = 1,
                         lin_weight = [[1, 1, 1, 1]], lin_bias = Some [0] \<rparr> \<rparr>,
       ln1 = \<lparr> ln_weight = [1], ln_bias = [0], ln_eps = 1 / 100000 \<rparr>,
       ln2 = \<lparr> ln_weight = [1], ln_bias = [0], ln_eps = 1 / 100000 \<rparr> \<rparr>"

definition example_model :: "nat \<Rightarrow> GPTLanguageModel" where
  "example_model bs =
     \<lparr> token_embedding_table = \<lparr> embed_size = 1, emb_weight = [[1], [2]] \<rparr>,
       position_embedding_table = \<lparr> embed_size = 1, emb_weight = replicate bs [0] \<rparr>,
       blocks = [example_block],
       ln_f = \<lparr> ln_weight = [1], ln_bias = [0], ln_eps = 1 / 100000 \<rparr>,
       lm_head = \<lparr> in_features = 1, out_features = 2, lin_weight = [[1], [- 1]],
                  lin_bias = Some [0, 0] \<rparr> \<rparr>"

text \<open>
  The example network with an output layer whose weights and biases are 0: its logits
  are 0, and the two tokens are equally likely.
\<close>

definition uniform_model :: "nat \<Rightarrow> GPTLanguageModel" where
  "uniform_model bs =
     (example_model bs)\<lparr> lm_head := \<lparr> in_features = 1, out_features = 2,
        lin_weight = [[0], [0]], lin_bias = Some [0, 0] \<rparr> \<rparr>"

text \<open>
  The example network with an output layer whose weights are 0 and whose biases are
  \<open>2\<^sup>1\<^sup>2\<^sup>7\<close> and \<open>- 2\<^sup>1\<^sup>2\<^sup>7\<close>, two numbers of float32: its logits are the biases, whatever
  the hidden state.
\<close>

definition two_127 :: real where
  "two_127 = 2 ^ 127"

definition overflow_model :: "nat \<Rightarrow> GPTLanguageModel" where
  "overflow_model bs =
     (example_model bs)\<lparr> lm_head := \<lparr> in_features = 1, out_features = 2,
        lin_weight = [[0], [0]], lin_bias = Some [two_127, - two_127] \<rparr> \<rparr>"

section \<open>Facts about the vocabulary\<close>

lemma dict_of_snoc: "dict_of (kvs @ [(k, v)]) = (dict_of kvs)(k \<mapsto> v)"
  by (simp add: dict_of_def)

lemma dict_of_Nil: "dict_of [] = Map.empty"
  by (simp add: dict_of_def)

lemma dict_of_map_of: "dict_of kvs = map_of (rev kvs)"
proof (induction kvs rule: rev_induct)
  case Nil
  show ?case by (simp add: dict_of_Nil)
next
  case (snoc kv kvs)
  obtain k v where kv: "kv = (k, v)" by (cases kv)
  show ?case unfolding kv dict_of_snoc snoc.IH by simp
qed

lemma chars_props: "distinct (chars corpus)" "sorted (chars corpus)" "set (chars corpus) = set corpus"
  by (simp_all add: chars_def)

lemma keys_stoi: "map fst (map (\<lambda>(i, ch). (ch, int i)) (enumerate 0 cs)) = cs"
proof -
  have "map fst (map (\<lambda>(i, ch). (ch, int i)) (enumerate 0 cs)) = map snd (enumerate 0 cs)"
    by (simp add: comp_def case_prod_unfold)
  then show ?thesis by simp
qed

lemma keys_itos:
  "map fst (map (\<lambda>(i, ch). (int i, ch)) (enumerate 0 cs)) = map int [0..<length cs]"
proof -
  have "map fst (map (\<lambda>(i, ch). (int i, ch)) (enumerate 0 cs)) = map int (map fst (enumerate 0 cs))"
    unfolding map_map comp_def case_prod_unfold fst_conv by (rule refl)
  then show ?thesis by simp
qed

lemma stoi_nth:
  assumes "i < length (chars corpus)"
  shows "stoi corpus (chars corpus ! i) = Some (int i)"
proof -
  let ?cs = "chars corpus"
  let ?E = "map (\<lambda>(i, ch). (ch, int i)) (enumerate 0 ?cs)"
  have "distinct (map fst (rev ?E))"
    unfolding rev_map [symmetric] keys_stoi using chars_props(1) [of corpus] by simp
  moreover have "?E ! i = (?cs ! i, int i)"
    using assms by (simp add: nth_enumerate_eq)
  then have "(?cs ! i, int i) \<in> set (rev ?E)"
    using assms nth_mem [of i ?E] by simp
  ultimately have "map_of (rev ?E) (?cs ! i) = Some (int i)"
    by (rule map_of_is_SomeI)
  then show ?thesis by (simp add: stoi_def dict_of_map_of)
qed

lemma itos_nth:
  assumes "i < length (chars corpus)"
  shows "itos corpus (int i) = Some (chars corpus ! i)"
proof -
  let ?cs = "chars corpus"
  let ?E = "map (\<lambda>(i, ch). (int i, ch)) (enumerate 0 ?cs)"
  have "distinct (map fst (rev ?E))"
    unfolding rev_map [symmetric] keys_itos by (simp add: distinct_map inj_on_def)
  moreover have "?E ! i = (int i, ?cs ! i)"
    using assms by (simp add: nth_enumerate_eq)
  then have "(int i, ?cs ! i) \<in> set (rev ?E)"
    using assms nth_mem [of i ?E] by simp
  ultimately have "map_of (rev ?E) (int i) = Some (?cs ! i)"
    by (rule map_of_is_SomeI)
  then show ?thesis by (simp add: itos_def dict_of_map_of)
qed

lemma stoi_dom: "dom (stoi corpus) = set corpus"
proof -
  let ?E = "map (\<lambda>(i, ch). (ch, int i)) (enumerate 0 (chars corpus))"
  have "dom (stoi corpus) = fst ` set (rev ?E)"
    by (simp only: stoi_def dict_of_map_of dom_map_of_conv_image_fst)
  also have "\<dots> = set (map fst ?E)" by (simp only: set_map set_rev)
  also have "\<dots> = set (chars corpus)" by (simp only: keys_stoi)
  finally show ?thesis by (simp add: chars_props)
qed

lemma itos_dom: "dom (itos corpus) = int ` {0..<vocab_size corpus}"
proof -
  let ?E = "map (\<lambda>(i, ch). (int i, ch)) (enumerate 0 (chars corpus))"
  have "dom (itos corpus) = fst ` set (rev ?E)"
    by (simp only: itos_def dict_of_map_of dom_map_of_conv_image_fst)
  also have "\<dots> = set (map fst ?E)" by (simp only: set_map set_rev)
  also have "\<dots> = set (map int [0..<length (chars corpus)])" by (simp only: keys_itos)
  finally show ?thesis by (simp add: vocab_size_def)
qed

lemma stoi_Some_iff:
  "stoi corpus c = Some j \<longleftrightarrow> (\<exists>i < length (chars corpus). chars corpus ! i = c \<and> j = int i)"
proof
  assume s: "stoi corpus c = Some j"
  then have "c \<in> set (chars corpus)"
    using stoi_dom [of corpus] by (auto simp: chars_props)
  then obtain i where i: "i < length (chars corpus)" "chars corpus ! i = c"
    by (auto simp: in_set_conv_nth)
  with stoi_nth [OF i(1)] s show "\<exists>i < length (chars corpus). chars corpus ! i = c \<and> j = int i"
    by auto
next
  assume "\<exists>i < length (chars corpus). chars corpus ! i = c \<and> j = int i"
  then show "stoi corpus c = Some j" using stoi_nth by auto
qed

lemma itos_Some_iff:
  "itos corpus j = Some c \<longleftrightarrow> (\<exists>i < length (chars corpus). chars corpus ! i = c \<and> j = int i)"
proof
  assume s: "itos corpus j = Some c"
  then have "j \<in> int ` {0..<vocab_size corpus}"
    using itos_dom [of corpus] by auto
  then obtain i where i: "i < length (chars corpus)" "j = int i"
    by (auto simp: vocab_size_def)
  with itos_nth [OF i(1)] s show "\<exists>i < length (chars corpus). chars corpus ! i = c \<and> j = int i"
    by auto
next
  assume "\<exists>i < length (chars corpus). chars corpus ! i = c \<and> j = int i"
  then show "itos corpus j = Some c" using itos_nth by auto
qed

lemma stoi_itos_inverse: "stoi corpus c = Some j \<longleftrightarrow> itos corpus j = Some c"
  by (simp add: stoi_Some_iff itos_Some_iff)

lemma decode_encode_subset:
  "set s \<subseteq> set corpus \<Longrightarrow> \<exists>l. encode corpus s = Inr l \<and> decode corpus l = Inr s \<and> length l = length s"
proof (induction s)
  case Nil
  show ?case by (simp add: encode_def decode_def)
next
  case (Cons c s)
  then obtain l where l: "encode corpus s = Inr l" "decode corpus l = Inr s" "length l = length s"
    by auto
  from Cons.prems have "c \<in> dom (stoi corpus)" by (simp add: stoi_dom)
  then obtain j where j: "stoi corpus c = Some j" by auto
  then have "itos corpus j = Some c" by (simp add: stoi_itos_inverse)
  with j l show ?case by (simp add: encode_def decode_def)
qed

lemma encode_KeyError:
  "\<not> set s \<subseteq> set corpus \<Longrightarrow> encode corpus s = Inl KeyError"
proof (induction s)
  case Nil
  then show ?case by simp
next
  case (Cons c s)
  show ?case
  proof (cases "c \<in> set corpus")
    case False
    then have "stoi corpus c = None" using stoi_dom [of corpus] by auto
    then show ?thesis by (simp add: encode_def)
  next
    case True
    then obtain j where "stoi corpus c = Some j" using stoi_dom [of corpus] by auto
    moreover from True Cons.prems have "\<not> set s \<subseteq> set corpus" by auto
    then have "encode corpus s = Inl KeyError" by (rule Cons.IH)
    ultimately show ?thesis by (simp add: encode_def)
  qed
qed

section \<open>Facts about the batch sampler\<close>

lemma cast_int32_uniform_range:
  assumes "0 \<le> u" "u < 1" "0 < h"
  shows "0 \<le> cast_int32 ((real_of_int h - 0) * u + 0) \<and> cast_int32 ((real_of_int h - 0) * u + 0) < h"
proof -
  have nn: "0 \<le> real_of_int h * u" using assms by simp
  have "real_of_int h * u < real_of_int h * 1"
    using assms by (intro mult_strict_left_mono) simp_all
  then have lt: "real_of_int h * u < real_of_int h" by simp
  have "\<lfloor>real_of_int h * u\<rfloor> < h" using lt by (simp add: floor_less_iff)
  moreover have "0 \<le> \<lfloor>real_of_int h * u\<rfloor>" using nn by simp
  ultimately show ?thesis using nn by (simp add: cast_int32_def)
qed

lemma batch_offsets_length: "length (batch_offsets hp data g) = batch_size hp"
  by (simp add: batch_offsets_def Tensor_uniform_def rng_draws_def)

lemma batch_offsets_range:
  assumes "unit_draws g" "block_size hp < length data" "i < batch_size hp"
  shows "0 \<le> batch_offsets hp data g ! i
    \<and> batch_offsets hp data g ! i < int (length data) - int (block_size hp)"
proof -
  have h: "0 < int (length data) - int (block_size hp)" using assms(2) by simp
  have u: "0 \<le> g i" "g i < 1" using assms(1) by (simp_all add: unit_draws_def)
  have "batch_offsets hp data g ! i =
      cast_int32 ((real_of_int (int (length data) - int (block_size hp)) - 0) * g i + 0)"
    using assms(3) by (simp add: batch_offsets_def Tensor_uniform_def rng_draws_def)
  then show ?thesis using cast_int32_uniform_range [OF u h] by simp
qed

lemma py_slice_window:
  assumes "0 \<le> a" "a + int n \<le> int (length xs)"
  shows "py_slice xs a (a + int n) = take n (drop (nat a) xs)"
proof -
  have "py_slice xs a (a + int n) = drop (nat a) (take (nat (a + int n)) xs)"
    using assms by (simp add: py_slice_def Let_def min_def)
  also have "nat (a + int n) = nat a + n" using assms by (simp add: nat_add_distrib)
  also have "drop (nat a) (take (nat a + n) xs) = take n (drop (nat a) xs)"
    by (simp add: drop_take)
  finally show ?thesis .
qed

lemma Tensor_stack_uniform:
  assumes "rows \<noteq> []" "list_all (\<lambda>q. length q = n) rows"
  shows "Tensor_stack rows = Inr rows"
proof (cases rows)
  case Nil
  with assms show ?thesis by simp
next
  case (Cons r rs)
  with assms have "length r = n" "list_all (\<lambda>q. length q = n) rs" by simp_all
  then have "list_all (\<lambda>q. length q = length r) rs" by simp
  with Cons show ?thesis by (simp add: Tensor_stack_def)
qed

text \<open>
  C5. Decoding what was encoded gives the text back. The vocabulary is built from the
  corpus \<open>text\<close>: its characters are listed once each in ascending order, character
  and index determine each other, and the indices are \<open>0 ..< vocab_size\<close>. The round
  trip returns the corpus itself, and every string \<open>s\<close> written with characters of
  the corpus; a string with any other character makes \<^verbatim>\<open>encode\<close> raise KeyError.
\<close>

theorem decode_encode_roundtrip:
  fixes corpus s :: "'a::linorder list"
  shows "decode_encode corpus corpus = Inr corpus
    \<and> (set s \<subseteq> set corpus \<longrightarrow> decode_encode corpus s = Inr s)
    \<and> (\<not> set s \<subseteq> set corpus \<longrightarrow> decode_encode corpus s = Inl KeyError)
    \<and> sorted (chars corpus) \<and> distinct (chars corpus) \<and> set (chars corpus) = set corpus
    \<and> (stoi corpus c = Some j \<longleftrightarrow> itos corpus j = Some c)
    \<and> dom (stoi corpus) = set corpus \<and> dom (itos corpus) = int ` {0..<vocab_size corpus}"
proof -
  have sub: "decode_encode corpus u = Inr u" if "set u \<subseteq> set corpus" for u
    using decode_encode_subset [OF that] by (auto simp: decode_encode_def)
  have "decode_encode corpus corpus = Inr corpus" by (rule sub) simp
  moreover have "\<not> set s \<subseteq> set corpus \<longrightarrow> decode_encode corpus s = Inl KeyError"
    by (simp add: decode_encode_def encode_KeyError)
  ultimately show ?thesis
    using sub [of s] stoi_itos_inverse [of corpus c j] stoi_dom [of corpus] itos_dom [of corpus]
    by (simp add: chars_props)
qed

theorem decode_encode_roundtrip_witness:
  "decode_encode ''hello world'' ''hello world'' = Inr ''hello world''
   \<and> set ''low'' \<subseteq> set ''hello world'' \<and> decode_encode ''hello world'' ''low'' = Inr ''low''
   \<and> \<not> set ''hex'' \<subseteq> set ''hello world'' \<and> decode_encode ''hello world'' ''hex'' = Inl KeyError"
proof -
  have a: "set ''low'' \<subseteq> set ''hello world''" by simp
  have b: "\<not> set ''hex'' \<subseteq> set ''hello world''" by simp
  note t1 = decode_encode_roundtrip [of "''hello world''" "''low''" "CHR ''h''" 0]
  note t2 = decode_encode_roundtrip [of "''hello world''" "''hex''" "CHR ''h''" 0]
  have 1: "decode_encode ''hello world'' ''hello world'' = Inr ''hello world''"
    by (rule t1 [THEN conjunct1])
  have 2: "decode_encode ''hello world'' ''low'' = Inr ''low''"
    by (rule t1 [THEN conjunct2, THEN conjunct1, THEN mp, OF a])
  have 3: "decode_encode ''hello world'' ''hex'' = Inl KeyError"
    by (rule t2 [THEN conjunct2, THEN conjunct2, THEN conjunct1, THEN mp, OF b])
  from 1 a 2 b 3 show ?thesis by (intro conjI)
qed

lemma get_batch_rows:
  assumes data: "data = (if split = ''train'' then train_data else val_data)"
    and long: "block_size hp < length data"
    and rows: "0 < batch_size hp"
    and draws: "unit_draws g"
  shows "\<exists>x y. get_batch hp train_data val_data split g = Inr ((x, y), rng_skip (batch_size hp) g)
     \<and> length x = batch_size hp \<and> length y = batch_size hp
     \<and> (\<forall>i < batch_size hp.
          let off = batch_offsets hp data g ! i in
            0 \<le> off \<and> off < int (length data) - int (block_size hp)
          \<and> nat off + block_size hp \<le> length data
          \<and> length (x ! i) = block_size hp \<and> length (y ! i) = block_size hp
          \<and> (\<forall>t < block_size hp.
                x ! i ! t = data ! (nat off + t) \<and> y ! i ! t = data ! (nat off + t + 1))
          \<and> tl (x ! i) = butlast (y ! i))"
proof -
  let ?bs = "block_size hp"
  let ?offs = "batch_offsets hp data g"
  let ?X = "map (\<lambda>i. py_slice data i (i + int ?bs)) ?offs"
  let ?Y = "map (\<lambda>i. py_slice data (i + 1) (i + int ?bs + 1)) ?offs"
  have len: "length ?offs = batch_size hp" by (rule batch_offsets_length)
  have rng: "0 \<le> ?offs ! i \<and> ?offs ! i < int (length data) - int ?bs" if "i < batch_size hp" for i
    using batch_offsets_range [OF draws long that] .
  have xs: "py_slice data off (off + int ?bs) = take ?bs (drop (nat off) data)"
    if "0 \<le> off" "off < int (length data) - int ?bs" for off
    using that by (intro py_slice_window) simp_all
  have ys: "py_slice data (off + 1) (off + int ?bs + 1) = take ?bs (drop (nat off + 1) data)"
    if "0 \<le> off" "off < int (length data) - int ?bs" for off
  proof -
    have e: "off + int ?bs + 1 = (off + 1) + int ?bs" by simp
    have "py_slice data (off + 1) (off + int ?bs + 1) = take ?bs (drop (nat (off + 1)) data)"
      unfolding e using that by (intro py_slice_window) simp_all
    also have "nat (off + 1) = nat off + 1" using that by simp
    finally show ?thesis .
  qed
  have Xi: "?X ! i = take ?bs (drop (nat (?offs ! i)) data)" if "i < batch_size hp" for i
    using that len rng [OF that] xs by simp
  have Yi: "?Y ! i = take ?bs (drop (nat (?offs ! i) + 1) data)" if "i < batch_size hp" for i
    using that len rng [OF that] ys by simp
  have inside: "nat (?offs ! i) + ?bs < length data" if "i < batch_size hp" for i
    using rng [OF that] by linarith
  have lenX: "length (?X ! i) = ?bs" if "i < batch_size hp" for i
    using inside [OF that] by (simp add: Xi [OF that])
  have lenY: "length (?Y ! i) = ?bs" if "i < batch_size hp" for i
    using inside [OF that] by (simp add: Yi [OF that])
  have allX: "list_all (\<lambda>q. length q = ?bs) ?X"
    unfolding list_all_length using lenX len by simp
  have allY: "list_all (\<lambda>q. length q = ?bs) ?Y"
    unfolding list_all_length using lenY len by simp
  have ne: "?X \<noteq> []" "?Y \<noteq> []" using len rows by auto
  have sX: "Tensor_stack ?X = Inr ?X" using ne(1) allX by (rule Tensor_stack_uniform)
  have sY: "Tensor_stack ?Y = Inr ?Y" using ne(2) allY by (rule Tensor_stack_uniform)
  have gb: "get_batch hp train_data val_data split g = Inr ((?X, ?Y), rng_skip (batch_size hp) g)"
    unfolding get_batch_def data [symmetric] Let_def sX sY by simp
  have nthX: "?X ! i ! t = data ! (nat (?offs ! i) + t)" if "i < batch_size hp" "t < ?bs" for i t
    using that inside [OF that(1)] by (simp add: Xi [OF that(1)])
  have nthY: "?Y ! i ! t = data ! (nat (?offs ! i) + t + 1)" if "i < batch_size hp" "t < ?bs" for i t
  proof -
    have "?Y ! i ! t = take ?bs (drop (nat (?offs ! i) + 1) data) ! t"
      by (simp only: Yi [OF that(1)])
    also have "\<dots> = data ! (nat (?offs ! i) + 1 + t)"
      using that inside [OF that(1)] by simp
    also have "nat (?offs ! i) + 1 + t = nat (?offs ! i) + t + 1" by simp
    finally show ?thesis .
  qed
  have shift: "tl (?X ! i) = butlast (?Y ! i)" if "i < batch_size hp" for i
  proof (rule nth_equalityI)
    show "length (tl (?X ! i)) = length (butlast (?Y ! i))"
      by (simp add: lenX [OF that] lenY [OF that])
  next
    fix t assume "t < length (tl (?X ! i))"
    then have t: "t + 1 < ?bs" by (simp add: lenX [OF that])
    then have "tl (?X ! i) ! t = ?X ! i ! (t + 1)"
      by (simp add: nth_tl lenX [OF that])
    also have "\<dots> = data ! (nat (?offs ! i) + (t + 1))" using t by (intro nthX that) 
    also have "\<dots> = ?Y ! i ! t" using t nthY [OF that, of t] by simp
    also have "\<dots> = butlast (?Y ! i) ! t" using t by (simp add: nth_butlast lenY [OF that])
    finally show "tl (?X ! i) ! t = butlast (?Y ! i) ! t" .
  qed
  have row: "let off = ?offs ! i in
            0 \<le> off \<and> off < int (length data) - int ?bs
          \<and> nat off + ?bs \<le> length data
          \<and> length (?X ! i) = ?bs \<and> length (?Y ! i) = ?bs
          \<and> (\<forall>t < ?bs. ?X ! i ! t = data ! (nat off + t) \<and> ?Y ! i ! t = data ! (nat off + t + 1))
          \<and> tl (?X ! i) = butlast (?Y ! i)" if "i < batch_size hp" for i
    unfolding Let_def
    using rng [OF that] inside [OF that] lenX [OF that] lenY [OF that] shift [OF that]
      nthX [OF that] nthY [OF that]
    by (intro conjI allI impI) simp_all
  show ?thesis
    apply (rule exI [of _ ?X], rule exI [of _ ?Y])
    using gb len row by simp
qed

text \<open>
  C4. For a token sequence longer than \<^verbatim>\<open>block_size\<close> (and a batch of at least one row, as
  configured), \<^verbatim>\<open>get_batch\<close> returns inputs and targets of \<^verbatim>\<open>batch_size\<close> rows of
  \<^verbatim>\<open>block_size\<close> tokens each. Row \<open>i\<close> starts at the sampled offset \<open>off\<close>, which lies in
  \<open>[0, L - block_size)\<close>; the input window \<open>data[off .. off + block_size)\<close> lies
  inside the sequence, and the target row is the window one position further, so that
  the targets without their last token are the inputs without their first.
\<close>

theorem get_batch_windows:
  assumes data: "data = (if split = ''train'' then train_data else val_data)"
    and long: "block_size hp < length data"
    and rows: "0 < batch_size hp"
    and draws: "unit_draws g"
  shows "\<exists>x y. get_batch hp train_data val_data split g = Inr ((x, y), rng_skip (batch_size hp) g)
     \<and> length x = batch_size hp \<and> length y = batch_size hp
     \<and> (\<forall>i < batch_size hp.
          let off = batch_offsets hp data g ! i in
            0 \<le> off \<and> off < int (length data) - int (block_size hp)
          \<and> nat off + block_size hp \<le> length data
          \<and> length (x ! i) = block_size hp \<and> length (y ! i) = block_size hp
          \<and> (\<forall>t < block_size hp.
                x ! i ! t = data ! (nat off + t) \<and> y ! i ! t = data ! (nat off + t + 1))
          \<and> tl (x ! i) = butlast (y ! i))"
  using assms by (rule get_batch_rows)

theorem get_batch_windows_witness:
  "[10, 11, 12, 13, 14, 15, 16, 17] =
      (if ''train'' = ''train'' then [10, 11, 12, 13, 14, 15, 16, 17] else ([] :: int list))
   \<and> block_size (tinygpt_hyper\<lparr>batch_size := 2, block_size := 3\<rparr>)
      < length [10, 11, 12, 13, 14, 15, 16, 17 :: int]
   \<and> 0 < batch_size (tinygpt_hyper\<lparr>batch_size := 2, block_size := 3\<rparr>)
   \<and> unit_draws (\<lambda>i. if i = 0 then 0 else 3 / 4)
   \<and> (\<exists>x y. get_batch (tinygpt_hyper\<lparr>batch_size := 2, block_size := 3\<rparr>)
          [10, 11, 12, 13, 14, 15, 16, 17] [] ''train'' (\<lambda>i. if i = 0 then 0 else 3 / 4)
        = Inr ((x, y), rng_skip 2 (\<lambda>i. if i = 0 then 0 else 3 / 4))
        \<and> length x = 2 \<and> length y = 2)"
proof -
  let ?hp = "tinygpt_hyper\<lparr>batch_size := 2, block_size := 3\<rparr>"
  let ?d = "[10, 11, 12, 13, 14, 15, 16, 17] :: int list"
  let ?g = "(\<lambda>i. if i = 0 then 0 else 3 / 4) :: rng"
  have a: "?d = (if ''train'' = ''train'' then ?d else [])" by simp
  have b: "block_size ?hp < length ?d" by simp
  have c: "0 < batch_size ?hp" by simp
  have d: "unit_draws ?g" by (simp add: unit_draws_def)
  from get_batch_windows [OF a b c d]
  have "\<exists>x y. get_batch ?hp ?d [] ''train'' ?g = Inr ((x, y), rng_skip 2 ?g)
      \<and> length x = 2 \<and> length y = 2"
    by (elim exE conjE) (simp del: One_nat_def)
  with a b c d show ?thesis by (intro conjI)
qed

lemma get_batch_example:
  "get_batch (tinygpt_hyper\<lparr>batch_size := 2, block_size := 3\<rparr>)
     [10, 11, 12, 13, 14, 15, 16, 17] [] ''train'' (\<lambda>i. if i = 0 then 0 else 3 / 4)
   = Inr (([[10, 11, 12], [13, 14, 15]], [[11, 12, 13], [14, 15, 16]]),
          rng_skip 2 (\<lambda>i. if i = 0 then 0 else 3 / 4))"
proof -
  let ?hp = "tinygpt_hyper\<lparr>batch_size := 2, block_size := 3\<rparr>"
  have two: "[0..<2] = [0, Suc 0]" by (simp add: numeral_2_eq_2)
  have o: "batch_offsets ?hp [10, 11, 12, 13, 14, 15, 16, 17] (\<lambda>i. if i = 0 then 0 else 3 / 4)
      = [0, 3]"
    by (simp add: batch_offsets_def Tensor_uniform_def rng_draws_def cast_int32_def two)
  show ?thesis
    by (simp add: get_batch_def o py_slice_def Tensor_stack_def)
qed

section \<open>Facts about the loss\<close>

lemma astype_int32_id: "0 \<le> v \<Longrightarrow> v < 2 ^ 31 \<Longrightarrow> astype_int32 v = v"
  by (simp add: astype_int32_def int_word_sint)

lemma onehot_row:
  assumes "0 \<le> t" "t < int C"
  shows "(replicate C (0::real))[nat t := v] = map (\<lambda>c. if int c = t then v else 0) [0..<C]"
proof (rule nth_equalityI)
  show "length ((replicate C (0::real))[nat t := v]) = length (map (\<lambda>c. if int c = t then v else 0) [0..<C])"
    by simp
next
  fix i assume "i < length ((replicate C (0::real))[nat t := v])"
  then have i: "i < C" by simp
  show "(replicate C (0::real))[nat t := v] ! i = map (\<lambda>c. if int c = t then v else 0) [0..<C] ! i"
    using i assms by (auto simp: nth_list_update)
qed

lemma assign_cols_valid:
  assumes "list_all (\<lambda>t. 0 \<le> t \<and> t < int C) YY"
  shows "assign_cols (replicate (length YY) (replicate C 0)) YY v
      = Inr (map (\<lambda>t. map (\<lambda>c. if int c = t then v else 0) [0..<C]) YY)"
  using assms
proof (induction YY)
  case Nil
  show ?case by simp
next
  case (Cons t YY)
  then have t: "0 \<le> t" "t < int C" and rest: "list_all (\<lambda>t. 0 \<le> t \<and> t < int C) YY"
    by simp_all
  show ?case
    using t Cons.IH [OF rest] onehot_row [OF t, of v] by (simp add: Let_def)
qed

lemma valid_targets_astype:
  "valid_targets C YY \<Longrightarrow> map astype_int32 YY = YY"
  by (induction YY) (simp_all add: valid_targets_def astype_int32_id)

lemma valid_targets_range:
  "valid_targets C YY \<Longrightarrow> list_all (\<lambda>t. 0 \<le> t \<and> t < int C) YY"
  by (induction YY) (simp_all add: valid_targets_def)

lemma length_target_tensor: "length (target_tensor C YY) = length YY * C"
  by (induction YY) (simp_all add: target_tensor_def)

lemma cross_entropy_spec:
  assumes wf: "wf_tensor out" "wf_tensor Y"
    and sh: "shape out = shape Y @ [C]"
    and ne: "flat Y \<noteq> []"
    and val: "valid_targets C (flat Y)"
  shows "cross_entropy out Y = Inr (spec_cross_entropy out Y)"
proof -
  have C: "last (shape out) = C" using sh by simp
  have pos: "0 < C"
  proof -
    from ne obtain t where "t \<in> set (flat Y)" by (cases "flat Y") auto
    with val have "0 \<le> t \<and> t < int C" by (auto simp: valid_targets_def list_all_iff)
    then show ?thesis by linarith
  qed
  have len: "length (flat out) = length (flat Y) * C"
    using wf sh by (simp add: wf_tensor_def)
  then have out_ne: "flat out \<noteq> []" using ne pos by auto
  let ?y = "map (\<lambda>t. map (\<lambda>c. if int c = t then - real C else 0) [0..<C]) (flat Y)"
  have a: "assign_cols (np_zeros (length (flat Y)) C) (flat Y) (- 1 * real C) = Inr ?y"
    using assign_cols_valid [OF valid_targets_range [OF val], of "- 1 * real C"]
    by (simp add: np_zeros_def)
  have tt: "concat ?y = target_tensor C (flat Y)" by (simp add: target_tensor_def)
  have zl: "length (map2 (*) (flat out) (target_tensor C (flat Y))) = length (flat out)"
    by (simp add: length_target_tensor len)
  have prod_ne: "map2 (*) (flat out) (target_tensor C (flat Y)) \<noteq> []"
    using zl out_ne by (metis length_0_conv)
  show ?thesis
    unfolding cross_entropy_def C Let_def valid_targets_astype [OF val] length_map a
    using sh prod_ne zl
    by (simp add: tt Tensor_mul_def Tensor_mean_def spec_cross_entropy_def C)
qed

lemma target_tensor_Cons:
  "target_tensor C (t # YY) = map (\<lambda>c. if int c = t then - real C else 0) [0..<C] @ target_tensor C YY"
  by (simp add: target_tensor_def)

lemma target_tensor_nth:
  assumes "r < length YY" "c < C"
  shows "target_tensor C YY ! (r * C + c) = (if int c = YY ! r then - real C else 0)"
  using assms
proof (induction YY arbitrary: r)
  case Nil
  then show ?case by simp
next
  case (Cons t YY)
  show ?case
  proof (cases r)
    case 0
    with Cons.prems show ?thesis by (simp add: target_tensor_Cons nth_append)
  next
    case (Suc r')
    with Cons.prems have r': "r' < length YY" by simp
    have "target_tensor C (t # YY) ! (r * C + c) = target_tensor C YY ! (r' * C + c)"
      using Suc by (simp add: target_tensor_Cons nth_append)
    with Cons.IH [OF r' Cons.prems(2)] Suc show ?thesis by simp
  qed
qed

lemma row_times_onehot:
  fixes xs :: "real list"
  assumes "length xs = C" "0 \<le> t" "t < int C"
  shows "sum_list (map2 (*) xs (map (\<lambda>c. if int c = t then v else 0) [0..<C])) = xs ! nat t * v"
proof -
  have "map2 (*) xs (map (\<lambda>c. if int c = t then v else 0) [0..<C])
      = map (\<lambda>c. if c = nat t then xs ! c * v else 0) [0..<C]"
  proof (rule nth_equalityI)
    show "length (map2 (*) xs (map (\<lambda>c. if int c = t then v else 0) [0..<C]))
        = length (map (\<lambda>c. if c = nat t then xs ! c * v else 0) [0..<C])"
      using assms(1) by simp
  next
    fix i assume "i < length (map2 (*) xs (map (\<lambda>c. if int c = t then v else 0) [0..<C]))"
    then have i: "i < C" using assms(1) by simp
    have "int i = t \<longleftrightarrow> i = nat t" using assms(2) by auto
    then show "map2 (*) xs (map (\<lambda>c. if int c = t then v else 0) [0..<C]) ! i
        = map (\<lambda>c. if c = nat t then xs ! c * v else 0) [0..<C] ! i"
      using i assms(1) by simp
  qed
  then have "sum_list (map2 (*) xs (map (\<lambda>c. if int c = t then v else 0) [0..<C]))
      = (\<Sum>c = 0..<C. if c = nat t then xs ! c * v else 0)"
    by (simp add: interv_sum_list_conv_sum_set_nat)
  also have "\<dots> = xs ! nat t * v"
  proof -
    have "nat t < C" using assms(2,3) by linarith
    then show ?thesis by (simp add: sum.delta)
  qed
  finally show ?thesis .
qed

lemma sum_list_upt_Suc_shift:
  fixes f :: "nat \<Rightarrow> real"
  shows "(\<Sum>r\<leftarrow>[0..<Suc n]. f r) = f 0 + (\<Sum>r\<leftarrow>[0..<n]. f (Suc r))"
proof -
  have "[0..<Suc n] = 0 # map Suc [0..<n]"
    by (simp add: upt_conv_Cons map_Suc_upt del: upt_Suc)
  then show ?thesis by (simp add: comp_def del: upt_Suc)
qed

lemma blocks_times_target:
  fixes xs :: "real list"
  assumes "length xs = length YY * C" "list_all (\<lambda>t. 0 \<le> t \<and> t < int C) YY"
  shows "sum_list (map2 (*) xs (target_tensor C YY))
      = (\<Sum>r\<leftarrow>[0..<length YY]. xs ! (r * C + nat (YY ! r)) * (- real C))"
  using assms
proof (induction YY arbitrary: xs)
  case Nil
  show ?case by (simp add: target_tensor_def)
next
  case (Cons t YY)
  let ?row = "map (\<lambda>c. if int c = t then - real C else 0) [0..<C]"
  from Cons.prems have t: "0 \<le> t" "t < int C"
    and rest: "list_all (\<lambda>t. 0 \<le> t \<and> t < int C) YY" by simp_all
  have lx: "length xs = C + length YY * C" using Cons.prems(1) by simp
  have lt: "length (take C xs) = C" and ld: "length (drop C xs) = length YY * C"
    using lx by simp_all
  have split: "xs = take C xs @ drop C xs" by simp
  have "map2 (*) xs (target_tensor C (t # YY))
      = map2 (*) (take C xs @ drop C xs) (?row @ target_tensor C YY)"
    by (simp add: target_tensor_Cons)
  also have "\<dots> = map2 (*) (take C xs) ?row @ map2 (*) (drop C xs) (target_tensor C YY)"
    using lt by (simp add: zip_append del: append_take_drop_id)
  finally have "sum_list (map2 (*) xs (target_tensor C (t # YY)))
      = sum_list (map2 (*) (take C xs) ?row) + sum_list (map2 (*) (drop C xs) (target_tensor C YY))"
    by simp
  also have "sum_list (map2 (*) (take C xs) ?row) = take C xs ! nat t * (- real C)"
    using lt t by (rule row_times_onehot)
  also have "take C xs ! nat t = xs ! nat t" using t by simp
  also have "sum_list (map2 (*) (drop C xs) (target_tensor C YY))
      = (\<Sum>r\<leftarrow>[0..<length YY]. drop C xs ! (r * C + nat (YY ! r)) * (- real C))"
    using ld rest by (rule Cons.IH)
  also have "\<dots> = (\<Sum>r\<leftarrow>[0..<length YY]. xs ! (Suc r * C + nat ((t # YY) ! Suc r)) * (- real C))"
  proof -
    have "drop C xs ! (r * C + nat (YY ! r)) = xs ! (Suc r * C + nat ((t # YY) ! Suc r))" for r
      using lx by (simp add: add.assoc)
    then show ?thesis by simp
  qed
  finally show ?case
    by (simp only: length_Cons sum_list_upt_Suc_shift [of _ "length YY"])
      (simp del: upt_Suc)
qed

lemma spec_cross_entropy_mean_nll:
  assumes wf: "wf_tensor out" "wf_tensor Y"
    and sh: "shape out = shape Y @ [C]"
    and ne: "flat Y \<noteq> []"
    and val: "valid_targets C (flat Y)"
  shows "spec_cross_entropy out Y = mean_nll out Y"
proof -
  let ?N = "length (flat Y)"
  let ?x = "\<lambda>r. flat out ! (r * C + nat (flat Y ! r))"
  have C: "last (shape out) = C" using sh by simp
  have N: "0 < ?N" using ne by simp
  have pos: "0 < C"
  proof -
    from ne obtain t where "t \<in> set (flat Y)" by (cases "flat Y") auto
    with val have "0 \<le> t \<and> t < int C" by (auto simp: valid_targets_def list_all_iff)
    then show ?thesis by linarith
  qed
  have len: "length (flat out) = ?N * C"
    using wf sh by (simp add: wf_tensor_def)
  have "sum_list (map2 (*) (flat out) (target_tensor C (flat Y)))
      = (\<Sum>r\<leftarrow>[0..<?N]. ?x r * (- real C))"
    using len valid_targets_range [OF val] by (rule blocks_times_target)
  also have "\<dots> = (\<Sum>r\<leftarrow>[0..<?N]. - ?x r) * real C"
    by (simp add: sum_list_mult_const [symmetric])
  finally have "spec_cross_entropy out Y = ((\<Sum>r\<leftarrow>[0..<?N]. - ?x r) * real C) / (real ?N * real C)"
    by (simp add: spec_cross_entropy_def C len)
  also have "\<dots> = (\<Sum>r\<leftarrow>[0..<?N]. - ?x r) / real ?N"
    using pos by simp
  finally show ?thesis by (simp add: mean_nll_def C)
qed

text \<open>
  C2. For an output of shape \<open>(..., C)\<close> and targets of the matching leading shape (at
  least one target, each the index of a class and within int32), \<^verbatim>\<open>cross_entropy\<close>
  returns the mean over all elements of the element-wise product of the output with
  the target tensor, and the target tensor holds \<open>- C\<close> at the true class of every
  row and 0 everywhere else.
\<close>

theorem cross_entropy_scaled_onehot_mean:
  assumes "wf_tensor out" and "wf_tensor Y"
    and "shape out = shape Y @ [C]"
    and "flat Y \<noteq> []"
    and "valid_targets C (flat Y)"
  shows "cross_entropy out Y
      = Inr (sum_list (map2 (*) (flat out) (target_tensor C (flat Y))) / real (length (flat out)))
    \<and> length (target_tensor C (flat Y)) = length (flat out)
    \<and> (\<forall>r < length (flat Y). \<forall>c < C.
          target_tensor C (flat Y) ! (r * C + c) = (if int c = flat Y ! r then - real C else 0))"
proof -
  have C: "last (shape out) = C" using assms(3) by simp
  have "cross_entropy out Y = Inr (spec_cross_entropy out Y)"
    using assms by (rule cross_entropy_spec)
  moreover have "length (target_tensor C (flat Y)) = length (flat out)"
    using assms(1,2,3) by (simp add: length_target_tensor wf_tensor_def)
  ultimately show ?thesis
    by (simp add: spec_cross_entropy_def C target_tensor_nth)
qed

theorem cross_entropy_scaled_onehot_mean_witness:
  "wf_tensor \<lparr>shape = [1, 2, 3], flat = [- 1, - 2, - 3, - 4, - 5, - 6 :: real]\<rparr>
   \<and> wf_tensor \<lparr>shape = [1, 2], flat = [2, 0 :: int]\<rparr>
   \<and> shape \<lparr>shape = [1, 2, 3], flat = [- 1, - 2, - 3, - 4, - 5, - 6 :: real]\<rparr>
      = shape \<lparr>shape = [1, 2], flat = [2, 0 :: int]\<rparr> @ [3]
   \<and> flat \<lparr>shape = [1, 2], flat = [2, 0 :: int]\<rparr> \<noteq> []
   \<and> valid_targets 3 (flat \<lparr>shape = [1, 2], flat = [2, 0 :: int]\<rparr>)
   \<and> cross_entropy \<lparr>shape = [1, 2, 3], flat = [- 1, - 2, - 3, - 4, - 5, - 6]\<rparr>
         \<lparr>shape = [1, 2], flat = [2, 0]\<rparr> = Inr (7 / 2)"
proof -
  let ?out = "\<lparr>shape = [1, 2, 3], flat = [- 1, - 2, - 3, - 4, - 5, - 6 :: real]\<rparr>"
  let ?Y = "\<lparr>shape = [1, 2], flat = [2, 0 :: int]\<rparr>"
  have a: "wf_tensor ?out" by (simp add: wf_tensor_def)
  have b: "wf_tensor ?Y" by (simp add: wf_tensor_def)
  have c: "shape ?out = shape ?Y @ [3]" by simp
  have d: "flat ?Y \<noteq> []" by simp
  have e: "valid_targets 3 (flat ?Y)" by (simp add: valid_targets_def)
  have three: "[0..<3] = [0, 1, 2]" by (simp add: upt_rec)
  have "cross_entropy ?out ?Y
      = Inr (sum_list (map2 (*) (flat ?out) (target_tensor 3 (flat ?Y))) / real (length (flat ?out)))"
    by (rule cross_entropy_scaled_onehot_mean [OF a b c d e, THEN conjunct1])
  also have "\<dots> = Inr (7 / 2)" by (simp add: target_tensor_def three)
  finally show ?thesis using a b c d e by (intro conjI)
qed

text \<open>
  C9. Under the same conditions the implemented loss is the textbook mean negative
  log-likelihood itself: the factor \<open>- C\<close> at the true class cancels against the
  average over the \<open>C\<close> classes of each row, leaving the mean over the rows of the
  negated output at the true class.
\<close>

theorem cross_entropy_mean_nll:
  assumes "wf_tensor out" and "wf_tensor Y"
    and "shape out = shape Y @ [C]"
    and "flat Y \<noteq> []"
    and "valid_targets C (flat Y)"
  shows "cross_entropy out Y
      = Inr ((\<Sum>r\<leftarrow>[0..<length (flat Y)]. - (flat out ! (r * C + nat (flat Y ! r))))
              / real (length (flat Y)))"
proof -
  have C: "last (shape out) = C" using assms(3) by simp
  have "cross_entropy out Y = Inr (spec_cross_entropy out Y)"
    using assms by (rule cross_entropy_spec)
  also have "spec_cross_entropy out Y = mean_nll out Y"
    using assms by (rule spec_cross_entropy_mean_nll)
  finally show ?thesis by (simp add: mean_nll_def C)
qed

theorem cross_entropy_mean_nll_witness:
  "wf_tensor \<lparr>shape = [2, 1, 2], flat = [- 1, - 3, - 5, - 7 :: real]\<rparr>
   \<and> wf_tensor \<lparr>shape = [2, 1], flat = [1, 0 :: int]\<rparr>
   \<and> shape \<lparr>shape = [2, 1, 2], flat = [- 1, - 3, - 5, - 7 :: real]\<rparr>
      = shape \<lparr>shape = [2, 1], flat = [1, 0 :: int]\<rparr> @ [2]
   \<and> flat \<lparr>shape = [2, 1], flat = [1, 0 :: int]\<rparr> \<noteq> []
   \<and> valid_targets 2 (flat \<lparr>shape = [2, 1], flat = [1, 0 :: int]\<rparr>)
   \<and> cross_entropy \<lparr>shape = [2, 1, 2], flat = [- 1, - 3, - 5, - 7]\<rparr>
         \<lparr>shape = [2, 1], flat = [1, 0]\<rparr> = Inr 4"
proof -
  let ?out = "\<lparr>shape = [2, 1, 2], flat = [- 1, - 3, - 5, - 7 :: real]\<rparr>"
  let ?Y = "\<lparr>shape = [2, 1], flat = [1, 0 :: int]\<rparr>"
  have a: "wf_tensor ?out" by (simp add: wf_tensor_def)
  have b: "wf_tensor ?Y" by (simp add: wf_tensor_def)
  have c: "shape ?out = shape ?Y @ [2]" by simp
  have d: "flat ?Y \<noteq> []" by simp
  have e: "valid_targets 2 (flat ?Y)" by (simp add: valid_targets_def)
  have two: "[0..<2] = [0, 1]" by (simp add: upt_rec)
  have "cross_entropy ?out ?Y
      = Inr ((\<Sum>r\<leftarrow>[0..<length (flat ?Y)]. - (flat ?out ! (r * 2 + nat (flat ?Y ! r))))
              / real (length (flat ?Y)))"
    by (rule cross_entropy_mean_nll [OF a b c d e])
  also have "\<dots> = Inr 4" by (simp add: two)
  finally show ?thesis using a b c d e by (intro conjI)
qed

section \<open>Facts about the layers\<close>

lemma ebind_Inr_iff: "ebind m f = Inr y \<longleftrightarrow> (\<exists>x. m = Inr x \<and> f x = Inr y)"
  by (cases m) (simp_all add: ebind_def)

lemma ebind_Inr: "ebind (Inr x) f = f x"
  by (simp add: ebind_def)

lemma ebind_Inl: "ebind (Inl e) f = Inl e"
  by (simp add: ebind_def)

lemma emap_Inr:
  "emap f xs = Inr ys \<Longrightarrow> length ys = length xs \<and> (\<forall>i < length xs. f (xs ! i) = Inr (ys ! i))"
proof (induction xs arbitrary: ys)
  case Nil
  then show ?case by simp
next
  case (Cons x xs)
  from Cons.prems obtain y ys' where y: "f x = Inr y" and ys': "emap f xs = Inr ys'"
    and ys: "ys = y # ys'"
    by (auto simp: ebind_Inr_iff)
  from Cons.IH [OF ys'] have "length ys' = length xs"
    and nth: "\<And>i. i < length xs \<Longrightarrow> f (xs ! i) = Inr (ys' ! i)" by simp_all
  then show ?case using y ys by (auto simp: nth_Cons split: nat.splits)
qed

lemma emap_list_all:
  "list_all (\<lambda>x. \<exists>y. f x = Inr y \<and> P y) xs
    \<Longrightarrow> \<exists>ys. emap f xs = Inr ys \<and> length ys = length xs \<and> list_all P ys"
proof (induction xs)
  case Nil
  show ?case by simp
next
  case (Cons x xs)
  then obtain y where y: "f x = Inr y" "P y" by auto
  from Cons obtain ys where ys: "emap f xs = Inr ys" "length ys = length xs" "list_all P ys"
    by auto
  show ?case using y ys by (simp add: ebind_Inr)
qed

lemma Linear_row_shape:
  assumes "length r = in_features l"
  shows "\<exists>y. Linear_row l r = Inr y
    \<and> length y = (case lin_bias l of None \<Rightarrow> length (lin_weight l)
                    | Some b \<Rightarrow> min (length (lin_weight l)) (length b))"
  using assms by (simp add: Linear_row_def Let_def split: option.splits)

lemma Linear_call_shape:
  assumes "is_tensor3 B T (in_features l) x"
  shows "\<exists>y. Linear_call l x = Inr y
    \<and> is_tensor3 B T (case lin_bias l of None \<Rightarrow> length (lin_weight l)
                        | Some b \<Rightarrow> min (length (lin_weight l)) (length b)) y"
proof -
  let ?w = "case lin_bias l of None \<Rightarrow> length (lin_weight l)
            | Some b \<Rightarrow> min (length (lin_weight l)) (length b)"
  have row: "\<exists>y. emap (Linear_row l) m = Inr y \<and> is_mat T ?w y"
    if "is_mat T (in_features l) m" for m
  proof -
    from that have "list_all (\<lambda>r. \<exists>y. Linear_row l r = Inr y \<and> length y = ?w) m"
      unfolding is_mat_def list_all_iff using Linear_row_shape [of _ l] by blast
    from emap_list_all [OF this] that show ?thesis by (auto simp: is_mat_def)
  qed
  from assms have "list_all (\<lambda>m. \<exists>y. emap (Linear_row l) m = Inr y \<and> is_mat T ?w y) x"
    unfolding is_tensor3_def list_all_iff using row by blast
  from emap_list_all [OF this] assms show ?thesis
    by (auto simp: is_tensor3_def Linear_call_def)
qed

section \<open>Facts about the attention head\<close>

lemma causal_mask_shape: "is_mat T T (causal_mask T)"
  by (simp add: is_mat_def causal_mask_def list_all_iff)

lemma causal_mask_nth:
  "t < T \<Longrightarrow> t' < T \<Longrightarrow> causal_mask T ! t ! t' = (if t < t' then NegInf else Fin 0)"
  by (auto simp: causal_mask_def)

lemma score_add_NegInf: "score_add a NegInf = NegInf"
  by (cases a) simp_all

lemma softmax_NegInf:
  "i < length xs \<Longrightarrow> xs ! i = NegInf \<Longrightarrow> softmax xs ! i = 0"
  by (simp add: softmax_def)

lemma masked_scores_shape:
  assumes "length k = length q"
  shows "is_mat (length q) (length q) (masked_scores hp q k)"
  using assms
  by (simp add: is_mat_def masked_scores_def matmul_nt_def causal_mask_def list_all_length)

lemma masked_scores_future:
  assumes "length k = length q" "t < t'" "t' < length q"
  shows "masked_scores hp q k ! t ! t' = NegInf"
proof -
  let ?T = "length q"
  let ?s = "map (map (\<lambda>s. Fin (s * real (n_embd hp) powr (- (1 / 2))))) (matmul_nt q k)"
  have t: "t < ?T" using assms by simp
  have "masked_scores hp q k ! t = map2 score_add (?s ! t) (causal_mask ?T ! t)"
    using t by (simp add: masked_scores_def matmul_nt_def causal_mask_def)
  moreover have "length (?s ! t) = ?T" using t assms(1) by (simp add: matmul_nt_def)
  moreover have "length (causal_mask ?T ! t) = ?T" using t by (simp add: causal_mask_def)
  ultimately have "masked_scores hp q k ! t ! t' = score_add (?s ! t ! t') (causal_mask ?T ! t ! t')"
    using assms(3) by simp
  then show ?thesis
    using assms t by (simp add: causal_mask_nth score_add_NegInf)
qed

lemma attention_weights_shape:
  assumes "length k = length q"
  shows "is_mat (length q) (length q) (attention_weights hp q k)"
  using masked_scores_shape [OF assms, of hp]
  by (simp add: is_mat_def attention_weights_def softmax_def list_all_iff)

lemma attention_weights_future:
  assumes "length k = length q" "t < t'" "t' < length q"
  shows "attention_weights hp q k ! t ! t' = 0"
proof -
  have sh: "is_mat (length q) (length q) (masked_scores hp q k)"
    using assms(1) by (rule masked_scores_shape)
  have t: "t < length q" using assms by simp
  then have "length (masked_scores hp q k ! t) = length q"
    using sh by (simp add: is_mat_def list_all_length)
  then have "softmax (masked_scores hp q k ! t) ! t' = 0"
    using assms masked_scores_future [OF assms, of hp] by (intro softmax_NegInf) simp_all
  then show ?thesis using t sh by (simp add: attention_weights_def is_mat_def)
qed

lemma Head_kqv_shape:
  assumes "is_tensor3 B T (in_features (to_kqv h)) x" "out_features (to_kqv h) mod 3 = 0"
  shows "\<exists>k q v. Head_kqv h x = Inr (k, q, v)
    \<and> length k = B \<and> length q = B \<and> length v = B
    \<and> (\<forall>b < B. length (k ! b) = T \<and> length (q ! b) = T \<and> length (v ! b) = T)"
proof -
  from Linear_call_shape [OF assms(1)] obtain kqv w
    where kqv: "Linear_call (to_kqv h) x = Inr kqv" "is_tensor3 B T w kqv" by blast
  let ?hs = "out_features (to_kqv h) div 3"
  let ?k = "map (map (take ?hs)) kqv"
  let ?q = "map (map (\<lambda>r. take ?hs (drop ?hs r))) kqv"
  let ?v = "map (map (\<lambda>r. take ?hs (drop (2 * ?hs) r))) kqv"
  have "Head_kqv h x = Inr (?k, ?q, ?v)"
    using kqv(1) assms(2) by (simp add: Head_kqv_def ebind_Inr Let_def)
  moreover have "length kqv = B" "\<And>b. b < B \<Longrightarrow> length (kqv ! b) = T"
    using kqv(2) by (simp_all add: is_tensor3_def is_mat_def list_all_length)
  ultimately show ?thesis by simp
qed

text \<open>
  C1. For an input of shape \<open>(B, T, embedding_dim)\<close> the head computes its attention
  weights, a tensor of shape \<open>(B, T, T)\<close>, and after the causal mask and the softmax
  the weight at position \<open>(t, t')\<close> is exactly 0 whenever \<open>t' > t\<close>. The statement is
  about any head, whatever its projection weights, so it holds for every head of every
  layer. Numbers are real; the only infinite value is the \<open>-inf\<close> of the mask.
\<close>

theorem causal_mask_zero_weights:
  assumes "is_tensor3 B T (in_features (to_kqv h)) x"
    and "out_features (to_kqv h) mod 3 = 0"
    and "0 < n_embd hp"
  shows "\<exists>wei. Head_weights hp h x = Inr wei \<and> is_tensor3 B T T wei
    \<and> (\<forall>b < B. \<forall>t < T. \<forall>t' < T. t < t' \<longrightarrow> wei ! b ! t ! t' = 0)"
proof -
  from Head_kqv_shape [OF assms(1,2)] obtain k q v
    where kqv: "Head_kqv h x = Inr (k, q, v)"
      and len: "length k = B" "length q = B"
      and rows: "\<And>b. b < B \<Longrightarrow> length (k ! b) = T \<and> length (q ! b) = T"
    by blast
  let ?wei = "map2 (attention_weights hp) q k"
  have hw: "Head_weights hp h x = Inr ?wei"
    using kqv assms(3) by (simp add: Head_weights_def ebind_Inr)
  have nth: "?wei ! b = attention_weights hp (q ! b) (k ! b)" if "b < B" for b
    using that len by simp
  have mat: "is_mat T T (?wei ! b)" if "b < B" for b
    using attention_weights_shape [of "k ! b" "q ! b" hp] rows [OF that] nth [OF that] by simp
  have shape: "is_tensor3 B T T ?wei"
    unfolding is_tensor3_def list_all_length using len mat by simp
  have zero: "?wei ! b ! t ! t' = 0" if "b < B" "t < t'" "t' < T" for b t t'
    using attention_weights_future [of "k ! b" "q ! b" t t' hp] rows [OF that(1)] that
      nth [OF that(1)] by simp
  show ?thesis using hw shape zero by blast
qed

theorem causal_mask_zero_weights_witness:
  "is_tensor3 1 2 (in_features (to_kqv \<lparr>to_kqv = \<lparr>in_features = 2, out_features = 3,
        lin_weight = [[1, 0], [0, 1], [1, 1]], lin_bias = None\<rparr>\<rparr>)) [[[1, 2], [3, 4 :: real]]]
   \<and> out_features (to_kqv \<lparr>to_kqv = \<lparr>in_features = 2, out_features = 3,
        lin_weight = [[1, 0], [0, 1], [1, 1]], lin_bias = None\<rparr>\<rparr>) mod 3 = 0
   \<and> 0 < n_embd (tinygpt_hyper\<lparr>n_embd := 2\<rparr>)
   \<and> (\<exists>wei. Head_weights (tinygpt_hyper\<lparr>n_embd := 2\<rparr>)
          \<lparr>to_kqv = \<lparr>in_features = 2, out_features = 3,
             lin_weight = [[1, 0], [0, 1], [1, 1]], lin_bias = None\<rparr>\<rparr> [[[1, 2], [3, 4]]] = Inr wei
        \<and> wei ! 0 ! 0 ! 1 = 0)"
proof -
  let ?h = "\<lparr>to_kqv = \<lparr>in_features = 2, out_features = 3,
      lin_weight = [[1, 0], [0, 1], [1, 1]], lin_bias = None\<rparr>\<rparr>"
  let ?x = "[[[1, 2], [3, 4 :: real]]]"
  let ?hp = "tinygpt_hyper\<lparr>n_embd := 2\<rparr>"
  have a: "is_tensor3 1 2 (in_features (to_kqv ?h)) ?x"
    by (simp add: is_tensor3_def is_mat_def)
  have b: "out_features (to_kqv ?h) mod 3 = 0" by simp
  have c: "0 < n_embd ?hp" by simp
  from causal_mask_zero_weights [OF a b c] obtain wei
    where w: "Head_weights ?hp ?h ?x = Inr wei"
      and z: "\<forall>b < 1. \<forall>t < 2. \<forall>t' < 2. t < t' \<longrightarrow> wei ! b ! t ! t' = 0"
    by blast
  from z have "wei ! 0 ! 0 ! 1 = 0" by simp
  with w have "\<exists>wei. Head_weights ?hp ?h ?x = Inr wei \<and> wei ! 0 ! 0 ! 1 = 0" by blast
  with a b c show ?thesis by (intro conjI)
qed

section \<open>Shapes through the network\<close>

lemma is_tensor3_nth:
  "is_tensor3 B T n x \<longleftrightarrow>
     length x = B \<and> (\<forall>b < B. length (x ! b) = T \<and> (\<forall>t < T. length (x ! b ! t) = n))"
  by (auto simp: is_tensor3_def is_mat_def list_all_length)

lemma is_mat_nth:
  "is_mat T n x \<longleftrightarrow> length x = T \<and> (\<forall>t < T. length (x ! t) = n)"
  by (auto simp: is_mat_def list_all_length)

lemma is_mat_lengths: "is_mat T n m \<Longrightarrow> map length m = replicate T n"
  by (auto simp: is_mat_nth intro: nth_equalityI)

lemma is_tensor3_lengths: "is_tensor3 B T n x \<Longrightarrow> map (map length) x = replicate B (replicate T n)"
  by (rule nth_equalityI) (auto simp: is_tensor3_def list_all_length is_mat_lengths)

lemma Linear_call_wf:
  assumes "wf_Linear i out hb l" "is_tensor3 B T i x"
  shows "\<exists>y. Linear_call l x = Inr y \<and> is_tensor3 B T out y"
proof -
  have i: "in_features l = i" and w: "length (lin_weight l) = out"
    using assms(1) by (simp_all add: wf_Linear_def is_mat_def)
  have "(case lin_bias l of None \<Rightarrow> length (lin_weight l)
         | Some b \<Rightarrow> min (length (lin_weight l)) (length b)) = out"
    using assms(1) w by (auto simp: wf_Linear_def split: option.splits)
  with Linear_call_shape [of B T l x] assms(2) i show ?thesis by simp
qed

lemma LayerNorm_row_wf:
  assumes "wf_LayerNorm n nrm" "0 < n" "length r = n"
  shows "\<exists>y. LayerNorm_row nrm r = Inr y \<and> length y = n"
  using assms by (auto simp: LayerNorm_row_def wf_LayerNorm_def layernorm_def Let_def)

lemma LayerNorm_call_wf:
  assumes "wf_LayerNorm n nrm" "0 < n" "is_tensor3 B T n x"
  shows "\<exists>y. LayerNorm_call nrm x = Inr y \<and> is_tensor3 B T n y"
proof -
  have row: "\<exists>y. emap (LayerNorm_row nrm) m = Inr y \<and> is_mat T n y" if "is_mat T n m" for m
  proof -
    from that have "list_all (\<lambda>r. \<exists>y. LayerNorm_row nrm r = Inr y \<and> length y = n) m"
      unfolding is_mat_def list_all_iff using LayerNorm_row_wf [OF assms(1,2)] by blast
    from emap_list_all [OF this] that show ?thesis by (auto simp: is_mat_def)
  qed
  from assms(3) have "list_all (\<lambda>m. \<exists>y. emap (LayerNorm_row nrm) m = Inr y \<and> is_mat T n y) x"
    unfolding is_tensor3_def list_all_iff using row by blast
  from emap_list_all [OF this] assms(3) show ?thesis
    by (auto simp: is_tensor3_def LayerNorm_call_def)
qed

lemma Embedding_row_length:
  "wf_Embedding n d e \<Longrightarrow> length (Embedding_row e i) = d"
  by (auto simp: Embedding_row_def wf_Embedding_def is_mat_nth)

lemma Embedding_call_shape:
  assumes "wf_Embedding n d e" "is_mat B T idx"
  shows "is_tensor3 B T d (Embedding_call e idx)"
  using assms Embedding_row_length [OF assms(1)]
  by (simp add: is_tensor3_nth is_mat_nth Embedding_call_def)

lemma Tensor_add_shape:
  assumes "is_tensor3 B T n a" "is_tensor3 B T n b"
  shows "\<exists>c. Tensor_add a b = Inr c \<and> is_tensor3 B T n c"
proof -
  have "map (map length) a = map (map length) b"
    using assms by (simp add: is_tensor3_lengths)
  then have "Tensor_add a b = Inr (map2 (map2 (map2 (+))) a b)"
    by (simp add: Tensor_add_def)
  moreover have "is_tensor3 B T n (map2 (map2 (map2 (+))) a b)"
    using assms by (simp add: is_tensor3_nth)
  ultimately show ?thesis by blast
qed

lemma dropout_mat_shape:
  "is_mat T n m \<Longrightarrow> is_mat T n (fst (dropout_mat p m g))"
proof (induction m arbitrary: T g)
  case Nil
  then show ?case by (simp add: is_mat_def)
next
  case (Cons r rs)
  then obtain T' where T': "T = Suc T'" "length r = n" "is_mat T' n rs"
    by (cases T) (auto simp: is_mat_def)
  from Cons.IH [OF T'(3)] have "is_mat T' n (fst (dropout_mat p rs (rng_skip (length r) g)))" .
  then show ?case using T'
    by (simp add: is_mat_def Let_def case_prod_unfold dropout_vec_def rng_draws_def)
qed

lemma dropout_tensor3_shape:
  "is_tensor3 B T n x \<Longrightarrow> is_tensor3 B T n (fst (dropout_tensor3 p x g))"
proof (induction x arbitrary: B g)
  case Nil
  then show ?case by (simp add: is_tensor3_def)
next
  case (Cons m ms)
  then obtain B' where B': "B = Suc B'" "is_mat T n m" "is_tensor3 B' T n ms"
    by (cases B) (auto simp: is_tensor3_def)
  from Cons.IH [OF B'(3)] dropout_mat_shape [OF B'(2)] show ?case using B'(1)
    by (simp add: is_tensor3_def Let_def case_prod_unfold)
qed

lemma Tensor_dropout_shape:
  assumes "is_tensor3 B T n x" "p \<noteq> 1"
  shows "\<exists>y g'. Tensor_dropout training p x g = Inr (y, g') \<and> is_tensor3 B T n y"
proof (cases training)
  case False
  with assms show ?thesis by (simp add: Tensor_dropout_def)
next
  case True
  obtain y g' where d: "dropout_tensor3 p x g = (y, g')" by (cases "dropout_tensor3 p x g")
  with dropout_tensor3_shape [OF assms(1), of p g] have "is_tensor3 B T n y" by simp
  with True assms(2) d show ?thesis by (simp add: Tensor_dropout_def)
qed

lemma matmul_shape:
  assumes "length a = T" "is_mat T n b"
  shows "is_mat T n (matmul a b)"
proof (cases b)
  case Nil
  with assms show ?thesis by (simp add: is_mat_def matmul_def)
next
  case (Cons r rs)
  with assms(2) have "ncols b = n" by (simp add: ncols_def is_mat_def)
  with assms(1) show ?thesis by (simp add: is_mat_def matmul_def list_all_iff)
qed

lemma Head_kqv_wf:
  assumes "wf_Head hp h" "is_tensor3 B T (n_embd hp) x"
  shows "\<exists>k q v. Head_kqv h x = Inr (k, q, v)
    \<and> is_tensor3 B T (n_embd hp div n_head hp) k
    \<and> is_tensor3 B T (n_embd hp div n_head hp) q
    \<and> is_tensor3 B T (n_embd hp div n_head hp) v"
proof -
  let ?hs = "n_embd hp div n_head hp"
  have wl: "wf_Linear (n_embd hp) (3 * ?hs) False (to_kqv h)"
    using assms(1) by (simp add: wf_Head_def)
  then have o: "out_features (to_kqv h) = 3 * ?hs" by (simp add: wf_Linear_def)
  from Linear_call_wf [OF wl assms(2)] obtain kqv
    where kqv: "Linear_call (to_kqv h) x = Inr kqv" "is_tensor3 B T (3 * ?hs) kqv" by blast
  let ?k = "map (map (take ?hs)) kqv"
  let ?q = "map (map (\<lambda>r. take ?hs (drop ?hs r))) kqv"
  let ?v = "map (map (\<lambda>r. take ?hs (drop (2 * ?hs) r))) kqv"
  have "Head_kqv h x = Inr (?k, ?q, ?v)"
    using kqv(1) o by (simp add: Head_kqv_def ebind_Inr Let_def)
  moreover have "is_tensor3 B T ?hs ?k" "is_tensor3 B T ?hs ?q" "is_tensor3 B T ?hs ?v"
    using kqv(2) by (simp_all add: is_tensor3_nth)
  ultimately show ?thesis by blast
qed

lemma Head_weights_eq:
  assumes "Head_kqv h x = Inr (k, q, v)" "0 < n_embd hp"
  shows "Head_weights hp h x = Inr (map2 (attention_weights hp) q k)"
  using assms by (simp add: Head_weights_def ebind_Inr)

lemma attention_weights_tensor3:
  assumes "is_tensor3 B T n k" "is_tensor3 B T n q"
  shows "is_tensor3 B T T (map2 (attention_weights hp) q k)"
proof -
  have len: "length k = B" "length q = B"
    and rows: "\<And>b. b < B \<Longrightarrow> length (k ! b) = T \<and> length (q ! b) = T"
    using assms by (simp_all add: is_tensor3_nth)
  have "is_mat T T (map2 (attention_weights hp) q k ! b)" if "b < B" for b
    using attention_weights_shape [of "k ! b" "q ! b" hp] rows [OF that] that len by simp
  then show ?thesis
    unfolding is_tensor3_def list_all_length using len by simp
qed

lemma Head_call_wf:
  assumes "wf_hyper hp" "wf_Head hp h" "is_tensor3 B T (n_embd hp) x"
  shows "\<exists>out g'. Head_call hp training h x g = Inr (out, g')
    \<and> is_tensor3 B T (n_embd hp div n_head hp) out"
proof -
  let ?hs = "n_embd hp div n_head hp"
  from Head_kqv_wf [OF assms(2,3)] obtain k q v
    where kqv: "Head_kqv h x = Inr (k, q, v)"
      and sh: "is_tensor3 B T ?hs k" "is_tensor3 B T ?hs q" "is_tensor3 B T ?hs v"
    by blast
  have pos: "0 < n_embd hp" and p: "dropout hp \<noteq> 1"
    using assms(1) by (simp_all add: wf_hyper_def)
  let ?wei = "map2 (attention_weights hp) q k"
  have hw: "Head_weights hp h x = Inr ?wei" using kqv pos by (rule Head_weights_eq)
  have wsh: "is_tensor3 B T T ?wei" using sh(1,2) by (rule attention_weights_tensor3)
  from Tensor_dropout_shape [OF wsh p, of training g] obtain wei' g'
    where d: "Tensor_dropout training (dropout hp) ?wei g = Inr (wei', g')"
      and dsh: "is_tensor3 B T T wei'" by blast
  have call: "Head_call hp training h x g = Inr (map2 matmul wei' v, g')"
    by (simp add: Head_call_def kqv hw d ebind_Inr)
  have len: "length wei' = B" "length v = B"
    and rows: "\<And>b. b < B \<Longrightarrow> length (wei' ! b) = T \<and> is_mat T ?hs (v ! b)"
    using dsh sh(3) by (simp_all add: is_tensor3_def is_mat_def list_all_length)
  have "is_mat T ?hs (map2 matmul wei' v ! b)" if "b < B" for b
    using matmul_shape [of "wei' ! b" T ?hs "v ! b"] rows [OF that] that len by simp
  then have "is_tensor3 B T ?hs (map2 matmul wei' v)"
    unfolding is_tensor3_def list_all_length using len by simp
  with call show ?thesis by blast
qed

lemma run_heads_wf:
  assumes "wf_hyper hp" "list_all (wf_Head hp) hs" "is_tensor3 B T (n_embd hp) x"
  shows "\<exists>outs g'. run_heads hp training hs x g = Inr (outs, g')
    \<and> length outs = length hs
    \<and> list_all (is_tensor3 B T (n_embd hp div n_head hp)) outs"
  using assms(2)
proof (induction hs arbitrary: g)
  case Nil
  show ?case by simp
next
  case (Cons h hs)
  then have h: "wf_Head hp h" and hs: "list_all (wf_Head hp) hs" by simp_all
  from Head_call_wf [OF assms(1) h assms(3), of training g] obtain out g1
    where o: "Head_call hp training h x g = Inr (out, g1)"
      "is_tensor3 B T (n_embd hp div n_head hp) out" by blast
  from Cons.IH [OF hs, of g1] obtain outs g2
    where os: "run_heads hp training hs x g1 = Inr (outs, g2)" "length outs = length hs"
      "list_all (is_tensor3 B T (n_embd hp div n_head hp)) outs" by blast
  show ?case using o os by (simp add: ebind_Inr)
qed

lemma cat_last_shape:
  assumes "is_tensor3 B T n a" "is_tensor3 B T n' b"
  shows "\<exists>c. cat_last a b = Inr c \<and> is_tensor3 B T (n + n') c"
proof -
  have "map length a = map length b"
    using assms by (auto simp: is_tensor3_nth intro: nth_equalityI)
  then have "cat_last a b = Inr (map2 (map2 (@)) a b)" by (simp add: cat_last_def)
  moreover have "is_tensor3 B T (n + n') (map2 (map2 (@)) a b)"
    using assms by (simp add: is_tensor3_nth)
  ultimately show ?thesis by blast
qed

lemma Tensor_cat_shape:
  assumes "is_tensor3 B T n a" "list_all (is_tensor3 B T n') bs"
  shows "\<exists>c. Tensor_cat a bs = Inr c \<and> is_tensor3 B T (n + length bs * n') c"
  using assms
proof (induction bs arbitrary: a n)
  case Nil
  then show ?case by simp
next
  case (Cons b bs)
  then have b: "is_tensor3 B T n' b" and bs: "list_all (is_tensor3 B T n') bs" by simp_all
  from cat_last_shape [OF Cons.prems(1) b] obtain ab
    where ab: "cat_last a b = Inr ab" "is_tensor3 B T (n + n') ab" by blast
  from Cons.IH [OF ab(2) bs] obtain c
    where c: "Tensor_cat ab bs = Inr c" "is_tensor3 B T (n + n' + length bs * n') c" by blast
  have "n + n' + length bs * n' = n + length (b # bs) * n'" by simp
  with ab c show ?case by (simp add: ebind_Inr)
qed

lemma MultiHeadAttention_call_wf:
  assumes "wf_hyper hp" "wf_MultiHeadAttention hp m" "is_tensor3 B T (n_embd hp) x"
  shows "\<exists>out g'. MultiHeadAttention_call hp training m x g = Inr (out, g')
    \<and> is_tensor3 B T (n_embd hp) out"
proof -
  let ?hs = "n_embd hp div n_head hp"
  have nh: "0 < n_head hp" and dv: "n_embd hp mod n_head hp = 0" and p: "dropout hp \<noteq> 1"
    using assms(1) by (simp_all add: wf_hyper_def)
  have len: "length (heads m) = n_head hp" and all: "list_all (wf_Head hp) (heads m)"
    and pr: "wf_Linear (n_embd hp) (n_embd hp) True (proj m)"
    using assms(2) by (simp_all add: wf_MultiHeadAttention_def)
  from len nh obtain h hs where hd: "heads m = h # hs" by (cases "heads m") auto
  with all have h: "wf_Head hp h" and hs: "list_all (wf_Head hp) hs" by simp_all
  from Head_call_wf [OF assms(1) h assms(3), of training g] obtain out0 g1
    where o0: "Head_call hp training h x g = Inr (out0, g1)" "is_tensor3 B T ?hs out0" by blast
  from run_heads_wf [OF assms(1) hs assms(3), of training g1] obtain outs g2
    where os: "run_heads hp training hs x g1 = Inr (outs, g2)" "length outs = length hs"
      "list_all (is_tensor3 B T ?hs) outs" by blast
  from Tensor_cat_shape [OF o0(2) os(3)] obtain out
    where c: "Tensor_cat out0 outs = Inr out" "is_tensor3 B T (?hs + length outs * ?hs) out"
    by blast
  have "n_head hp = Suc (length outs)" using os(2) hd len by simp
  then have "?hs + length outs * ?hs = n_head hp * ?hs" by simp
  also have "\<dots> = n_embd hp" using dv by (simp add: mod_eq_0_iff_dvd)
  finally have csh: "is_tensor3 B T (n_embd hp) out" using c(2) by simp
  from Linear_call_wf [OF pr csh] obtain out'
    where l: "Linear_call (proj m) out = Inr out'" "is_tensor3 B T (n_embd hp) out'" by blast
  from Tensor_dropout_shape [OF l(2) p, of training g2] obtain y g'
    where d: "Tensor_dropout training (dropout hp) out' g2 = Inr (y, g')"
      "is_tensor3 B T (n_embd hp) y" by blast
  have "MultiHeadAttention_call hp training m x g = Inr (y, g')"
    by (simp add: MultiHeadAttention_call_def hd o0(1) os(1) c(1) l(1) d(1) ebind_Inr)
  with d(2) show ?thesis by blast
qed

lemma Tensor_relu_shape: "is_tensor3 B T n x \<Longrightarrow> is_tensor3 B T n (Tensor_relu x)"
  by (simp add: is_tensor3_nth Tensor_relu_def)

lemma FeedForward_call_wf:
  assumes "wf_hyper hp" "wf_FeedForward hp f" "is_tensor3 B T (n_embd hp) x"
  shows "\<exists>out g'. FeedForward_call hp training f x g = Inr (out, g')
    \<and> is_tensor3 B T (n_embd hp) out"
proof -
  have p: "dropout hp \<noteq> 1" using assms(1) by (simp add: wf_hyper_def)
  have l0: "wf_Linear (n_embd hp) (4 * n_embd hp) True (net_0 f)"
    and l2: "wf_Linear (4 * n_embd hp) (n_embd hp) True (net_2 f)"
    using assms(2) by (simp_all add: wf_FeedForward_def)
  from Linear_call_wf [OF l0 assms(3)] obtain a
    where a: "Linear_call (net_0 f) x = Inr a" "is_tensor3 B T (4 * n_embd hp) a" by blast
  from Linear_call_wf [OF l2 Tensor_relu_shape [OF a(2)]] obtain b
    where b: "Linear_call (net_2 f) (Tensor_relu a) = Inr b" "is_tensor3 B T (n_embd hp) b"
    by blast
  from Tensor_dropout_shape [OF b(2) p, of training g] obtain y g'
    where d: "Tensor_dropout training (dropout hp) b g = Inr (y, g')"
      "is_tensor3 B T (n_embd hp) y" by blast
  have "FeedForward_call hp training f x g = Inr (y, g')"
    by (simp add: FeedForward_call_def a(1) b(1) d(1) ebind_Inr)
  with d(2) show ?thesis by blast
qed

lemma Block_call_wf:
  assumes "wf_hyper hp" "wf_Block hp blk" "is_tensor3 B T (n_embd hp) x"
  shows "\<exists>out g'. Block_call hp training blk x g = Inr (out, g')
    \<and> is_tensor3 B T (n_embd hp) out"
proof -
  have pos: "0 < n_embd hp" using assms(1) by (simp add: wf_hyper_def)
  have w: "wf_MultiHeadAttention hp (sa blk)" "wf_FeedForward hp (ffwd blk)"
    "wf_LayerNorm (n_embd hp) (ln1 blk)" "wf_LayerNorm (n_embd hp) (ln2 blk)"
    using assms(2) by (simp_all add: wf_Block_def)
  from LayerNorm_call_wf [OF w(3) pos assms(3)] obtain n1
    where n1: "LayerNorm_call (ln1 blk) x = Inr n1" "is_tensor3 B T (n_embd hp) n1" by blast
  from MultiHeadAttention_call_wf [OF assms(1) w(1) n1(2), of training g] obtain a g1
    where a: "MultiHeadAttention_call hp training (sa blk) n1 g = Inr (a, g1)"
      "is_tensor3 B T (n_embd hp) a" by blast
  from Tensor_add_shape [OF assms(3) a(2)] obtain x1
    where x1: "Tensor_add x a = Inr x1" "is_tensor3 B T (n_embd hp) x1" by blast
  from LayerNorm_call_wf [OF w(4) pos x1(2)] obtain n2
    where n2: "LayerNorm_call (ln2 blk) x1 = Inr n2" "is_tensor3 B T (n_embd hp) n2" by blast
  from FeedForward_call_wf [OF assms(1) w(2) n2(2), of training g1] obtain f g2
    where f: "FeedForward_call hp training (ffwd blk) n2 g1 = Inr (f, g2)"
      "is_tensor3 B T (n_embd hp) f" by blast
  from Tensor_add_shape [OF x1(2) f(2)] obtain x2
    where x2: "Tensor_add x1 f = Inr x2" "is_tensor3 B T (n_embd hp) x2" by blast
  have "Block_call hp training blk x g = Inr (x2, g2)"
    by (simp add: Block_call_def n1(1) a(1) x1(1) n2(1) f(1) x2(1) ebind_Inr)
  with x2(2) show ?thesis by blast
qed

lemma run_blocks_wf:
  assumes "wf_hyper hp" "list_all (wf_Block hp) blks" "is_tensor3 B T (n_embd hp) x"
  shows "\<exists>out g'. run_blocks hp training blks x g = Inr (out, g')
    \<and> is_tensor3 B T (n_embd hp) out"
  using assms(2,3)
proof (induction blks arbitrary: x g)
  case Nil
  then show ?case by simp
next
  case (Cons blk blks)
  then have b: "wf_Block hp blk" and bs: "list_all (wf_Block hp) blks" by simp_all
  from Block_call_wf [OF assms(1) b Cons.prems(2), of training g] obtain x' g1
    where x': "Block_call hp training blk x g = Inr (x', g1)" "is_tensor3 B T (n_embd hp) x'"
    by blast
  from Cons.IH [OF bs x'(2), of g1] obtain out g'
    where o: "run_blocks hp training blks x' g1 = Inr (out, g')"
      "is_tensor3 B T (n_embd hp) out" by blast
  show ?case using x' o by (simp add: ebind_Inr)
qed

lemma ncols_is_mat: "is_mat B T idx \<Longrightarrow> 0 < B \<Longrightarrow> ncols idx = T"
  by (cases idx) (simp_all add: ncols_def is_mat_def)

lemma position_indices_shape: "is_mat 1 T (position_indices T)"
  by (simp add: position_indices_def arange_int8_def is_mat_def)

lemma GPT_logits_wf:
  assumes "wf_hyper hp" "wf_GPTLanguageModel hp V m" "is_mat B T idx"
  shows "\<exists>logits g'. GPT_logits hp training m idx g = Inr (logits, g')
    \<and> is_tensor3 B T V logits"
proof -
  have pos: "0 < n_embd hp" using assms(1) by (simp add: wf_hyper_def)
  have w: "wf_Embedding V (n_embd hp) (token_embedding_table m)"
    "wf_Embedding (block_size hp) (n_embd hp) (position_embedding_table m)"
    "list_all (wf_Block hp) (blocks m)" "wf_LayerNorm (n_embd hp) (ln_f m)"
    "wf_Linear (n_embd hp) V True (lm_head m)"
    using assms(2) by (simp_all add: wf_GPTLanguageModel_def)
  let ?tok = "Embedding_call (token_embedding_table m) idx"
  let ?pos = "Embedding_call (position_embedding_table m) (position_indices (ncols idx))"
  have tok: "is_tensor3 B T (n_embd hp) ?tok" using w(1) assms(3) by (rule Embedding_call_shape)
  have len: "length ?tok = B" using tok by (simp add: is_tensor3_def)
  have pos1: "is_tensor3 1 (ncols idx) (n_embd hp) ?pos"
    using w(2) position_indices_shape by (rule Embedding_call_shape)
  have bc: "is_tensor3 B T (n_embd hp) (concat (replicate B ?pos))"
  proof (cases "B = 0")
    case True
    then show ?thesis by (simp add: is_tensor3_def)
  next
    case False
    then have T: "ncols idx = T" using assms(3) by (simp add: ncols_is_mat)
    define pm where "pm = map (Embedding_row (position_embedding_table m)) (map sint (arange_int8 T))"
    have pm: "?pos = [pm]"
      by (simp add: Embedding_call_def position_indices_def T pm_def)
    with pos1 have "is_mat T (n_embd hp) pm" by (simp add: is_tensor3_def T)
    note pm = pm this
    have "concat (replicate B [pm]) = replicate B pm" by (induction B) simp_all
    then show ?thesis using pm by (simp add: is_tensor3_def list_all_iff)
  qed
  from Tensor_add_shape [OF tok bc] obtain x
    where x: "Tensor_add ?tok (concat (replicate B ?pos)) = Inr x" "is_tensor3 B T (n_embd hp) x"
    by blast
  from run_blocks_wf [OF assms(1) w(3) x(2), of training g] obtain x' g'
    where x': "run_blocks hp training (blocks m) x g = Inr (x', g')"
      "is_tensor3 B T (n_embd hp) x'" by blast
  from LayerNorm_call_wf [OF w(4) pos x'(2)] obtain x''
    where x'': "LayerNorm_call (ln_f m) x' = Inr x''" "is_tensor3 B T (n_embd hp) x''" by blast
  from Linear_call_wf [OF w(5) x''(2)] obtain logits
    where l: "Linear_call (lm_head m) x'' = Inr logits" "is_tensor3 B T V logits" by blast
  have "GPT_logits hp training m idx g = Inr (logits, g')"
    unfolding GPT_logits_def Let_def len
    by (simp add: x(1) x'(1) x''(1) l(1) ebind_Inr)
  with l(2) show ?thesis by blast
qed

section \<open>Facts about the position indices\<close>

lemma sint_int8_small: "i < 128 \<Longrightarrow> sint (word_of_nat i :: 8 word) = int i"
  using int_word_sint [of "int i", where 'a = 8] by simp

lemma arange_int8_small:
  assumes "T \<le> 128"
  shows "map sint (arange_int8 T) = map int [0..<T]"
  using assms by (auto simp: arange_int8_def sint_int8_small)

lemma sint_arange_int8_128:
  assumes "128 < T"
  shows "map sint (arange_int8 T) ! 128 = - 128"
proof -
  have "map sint (arange_int8 T) ! 128 = sint (word_of_nat 128 :: 8 word)"
    using assms by (simp add: arange_int8_def)
  then show ?thesis by simp
qed

lemma int8_cannot_hold:
  fixes ws :: "8 word list"
  assumes "128 < T"
  shows "map sint ws \<noteq> map int [0..<T]"
proof
  assume eq: "map sint ws = map int [0..<T]"
  then have "length ws = T" using length_map [of sint ws] by simp
  with eq assms have "sint (ws ! 128) = map int [0..<T] ! 128"
    using nth_map [of 128 ws sint] by simp
  with assms have "sint (ws ! 128) = 128" by simp
  moreover have "sint (ws ! 128) < 128" using sint_lt [of "ws ! 128"] by simp
  ultimately show False by simp
qed

lemma Embedding_rows_take:
  assumes "T \<le> length (emb_weight e)"
  shows "map (Embedding_row e) (map int [0..<T]) = take T (emb_weight e)"
  using assms by (auto simp: Embedding_row_def intro!: nth_equalityI)

text \<open>
  C10. The forward pass makes the position indices as an int8 tensor. Up to 128
  positions the tensor holds \<open>0 .. T - 1\<close> and the position embedding is the first \<open>T\<close>
  rows of its table. With a block size above 128 and an input of more than 128
  positions, no int8 tensor can hold \<open>0 .. T - 1\<close>: position 128 is stored as \<open>-128\<close>,
  the embedding is looked up at \<open>-128\<close>, and the forward pass still returns logits
  instead of raising.
\<close>

theorem int8_position_indices:
  assumes "wf_hyper hp" and "wf_GPTLanguageModel hp V m"
    and "is_mat B T idx" and "T \<le> block_size hp"
  shows "(T \<le> 128 \<longrightarrow>
            position_indices T = [map int [0..<T]]
          \<and> Embedding_call (position_embedding_table m) (position_indices T)
              = [take T (emb_weight (position_embedding_table m))])
    \<and> (128 < T \<longrightarrow>
            position_indices T ! 0 ! 128 = - 128
          \<and> (\<forall>ws :: 8 word list. map sint ws \<noteq> map int [0..<T])
          \<and> Embedding_call (position_embedding_table m) (position_indices T) ! 0 ! 128
              = Embedding_row (position_embedding_table m) (- 128)
          \<and> (\<exists>logits g'. GPT_logits hp training m idx g = Inr (logits, g')
                \<and> is_tensor3 B T V logits))"
proof (intro conjI impI)
  assume T: "T \<le> 128"
  show "position_indices T = [map int [0..<T]]"
    using T by (simp add: position_indices_def arange_int8_small)
  have "length (emb_weight (position_embedding_table m)) = block_size hp"
    using assms(2) by (simp add: wf_GPTLanguageModel_def wf_Embedding_def is_mat_def)
  with assms(4) have "T \<le> length (emb_weight (position_embedding_table m))" by simp
  then have "map (Embedding_row (position_embedding_table m)) (map int [0..<T])
      = take T (emb_weight (position_embedding_table m))"
    by (rule Embedding_rows_take)
  then show "Embedding_call (position_embedding_table m) (position_indices T)
      = [take T (emb_weight (position_embedding_table m))]"
    unfolding Embedding_call_def position_indices_def arange_int8_small [OF T] by simp
next
  assume T: "128 < T"
  show "position_indices T ! 0 ! 128 = - 128"
    using sint_arange_int8_128 [OF T] by (simp add: position_indices_def)
  show "\<forall>ws :: 8 word list. map sint ws \<noteq> map int [0..<T]"
    using int8_cannot_hold [OF T] by blast
  have len: "128 < length (map sint (arange_int8 T))" using T by (simp add: arange_int8_def)
  have "Embedding_call (position_embedding_table m) (position_indices T) ! 0 ! 128
      = map (Embedding_row (position_embedding_table m)) (map sint (arange_int8 T)) ! 128"
    by (simp add: Embedding_call_def position_indices_def)
  also have "\<dots> = Embedding_row (position_embedding_table m) (map sint (arange_int8 T) ! 128)"
    using len by (rule nth_map)
  finally show "Embedding_call (position_embedding_table m) (position_indices T) ! 0 ! 128
      = Embedding_row (position_embedding_table m) (- 128)"
    by (simp only: sint_arange_int8_128 [OF T])
  show "\<exists>logits g'. GPT_logits hp training m idx g = Inr (logits, g') \<and> is_tensor3 B T V logits"
    using assms(1,2,3) by (rule GPT_logits_wf)
qed

lemma example_hyper_wf: "wf_hyper (example_hyper bs)"
  by (simp add: wf_hyper_def example_hyper_def tinygpt_hyper_def)

lemma example_model_wf: "wf_GPTLanguageModel (example_hyper bs) 2 (example_model bs)"
  by (simp add: wf_GPTLanguageModel_def example_model_def example_hyper_def tinygpt_hyper_def
      example_block_def wf_Embedding_def wf_Block_def wf_MultiHeadAttention_def wf_Head_def
      wf_FeedForward_def wf_LayerNorm_def wf_Linear_def is_mat_def list_all_iff)

theorem int8_position_indices_witness:
  "wf_hyper (example_hyper 200) \<and> wf_GPTLanguageModel (example_hyper 200) 2 (example_model 200)
   \<and> is_mat 1 129 [replicate 129 (0::int)] \<and> 129 \<le> block_size (example_hyper 200)
   \<and> (128::nat) < 129
   \<and> position_indices 129 ! 0 ! 128 = - 128
   \<and> (\<exists>logits g'. GPT_logits (example_hyper 200) False (example_model 200)
          [replicate 129 0] (\<lambda>i. 0) = Inr (logits, g') \<and> is_tensor3 1 129 2 logits)
   \<and> is_mat 1 2 [[0, 1 :: int]] \<and> 2 \<le> block_size (example_hyper 200) \<and> (2::nat) \<le> 128
   \<and> position_indices 2 = [map int [0..<2]]"
proof -
  have a: "wf_hyper (example_hyper 200)" by (rule example_hyper_wf)
  have b: "wf_GPTLanguageModel (example_hyper 200) 2 (example_model 200)" by (rule example_model_wf)
  have c: "is_mat 1 129 [replicate 129 (0::int)]" by (simp add: is_mat_def)
  have d: "129 \<le> block_size (example_hyper 200)" by (simp add: example_hyper_def)
  have e: "(128::nat) < 129" by simp
  have c': "is_mat 1 2 [[0, 1 :: int]]" by (simp add: is_mat_def)
  have d': "2 \<le> block_size (example_hyper 200)" by (simp add: example_hyper_def)
  have e': "(2::nat) \<le> 128" by simp
  note big = int8_position_indices [OF a b c d, of False "\<lambda>i. 0", THEN conjunct2, THEN mp, OF e]
  note small = int8_position_indices [OF a b c' d', of False "\<lambda>i. 0", THEN conjunct1, THEN mp, OF e']
  have 1: "position_indices 129 ! 0 ! 128 = - 128" by (rule big [THEN conjunct1])
  have 2: "\<exists>logits g'. GPT_logits (example_hyper 200) False (example_model 200)
          [replicate 129 0] (\<lambda>i. 0) = Inr (logits, g') \<and> is_tensor3 1 129 2 logits"
    by (rule big [THEN conjunct2, THEN conjunct2, THEN conjunct2])
  have 3: "position_indices 2 = [map int [0..<2]]" by (rule small [THEN conjunct1])
  from a b c d e 1 2 c' d' e' 3 show ?thesis by (intro conjI)
qed

section \<open>Facts about the loss of the forward pass\<close>

lemma exp_le_sum_exp:
  fixes x :: real
  assumes "x \<in> set xs"
  shows "exp x \<le> (\<Sum>y\<leftarrow>xs. exp y)"
proof -
  have "exp x \<in> set (map exp xs)" using assms by simp
  moreover have "\<And>v. v \<in> set (map exp xs) \<Longrightarrow> 0 \<le> v" by auto
  ultimately show ?thesis by (rule member_le_sum_list)
qed

lemma log_softmax_nonpos:
  fixes v :: real
  assumes "v \<in> set (log_softmax xs)"
  shows "v \<le> 0"
proof -
  from assms obtain x where x: "x \<in> set xs" "v = x - ln (\<Sum>y\<leftarrow>xs. exp y)"
    by (auto simp: log_softmax_def)
  have "ln (exp x) \<le> ln (\<Sum>y\<leftarrow>xs. exp y)"
    using exp_le_sum_exp [OF x(1)] by (intro ln_mono) simp_all
  then show ?thesis using x(2) by simp
qed

lemma predictions_nonpos:
  assumes "v \<in> set (concat (concat (map (map log_softmax) logits)))"
  shows "v \<le> 0"
  using assms log_softmax_nonpos by auto

lemma predictions_shape:
  "is_tensor3 B T V logits \<Longrightarrow> is_tensor3 B T V (map (map log_softmax) logits)"
  by (simp add: is_tensor3_nth log_softmax_def)

lemma length_concat_mat: "is_mat T n m \<Longrightarrow> length (concat m) = T * n"
  by (simp add: length_concat is_mat_lengths sum_list_replicate)

lemma length_concat_tensor3:
  assumes "is_tensor3 B T n x"
  shows "length (concat (concat x)) = B * T * n"
proof -
  have "is_mat (B * T) n (concat x)"
  proof -
    have "map length x = replicate B T"
      using assms by (auto simp: is_tensor3_nth intro: nth_equalityI)
    then have "length (concat x) = B * T"
      by (simp add: length_concat sum_list_replicate)
    moreover have "list_all (\<lambda>r. length r = n) (concat x)"
      using assms by (auto simp: is_tensor3_def is_mat_def list_all_iff)
    ultimately show ?thesis by (simp add: is_mat_def)
  qed
  then show ?thesis by (rule length_concat_mat)
qed

lemma tensor_of3_shape:
  assumes "is_tensor3 B T n x" "0 < B" "0 < T"
  shows "shape (tensor_of3 x) = [B, T, n]" "wf_tensor (tensor_of3 x)"
proof -
  from assms obtain m ms where x: "x = m # ms" "is_mat T n m"
    by (cases x) (auto simp: is_tensor3_def)
  from x(2) assms(3) obtain r rs where m: "m = r # rs" "length r = n"
    by (cases m) (auto simp: is_mat_def)
  have "length x = B" using assms(1) by (simp add: is_tensor3_def)
  moreover have "ncols x = T" using x by (simp add: ncols_def is_mat_def)
  moreover have "ncols (concat x) = n" using x(1) m by (simp add: ncols_def)
  ultimately show "shape (tensor_of3 x) = [B, T, n]" by (simp add: tensor_of3_def)
  then show "wf_tensor (tensor_of3 x)"
    using length_concat_tensor3 [OF assms(1)] by (simp add: wf_tensor_def tensor_of3_def)
qed

lemma tensor_of2_shape:
  assumes "is_mat B T Y" "0 < B"
  shows "shape (tensor_of2 Y) = [B, T]" "wf_tensor (tensor_of2 Y)"
proof -
  show "shape (tensor_of2 Y) = [B, T]"
    using assms by (simp add: tensor_of2_def ncols_is_mat is_mat_def)
  then show "wf_tensor (tensor_of2 Y)"
    using length_concat_mat [OF assms(1)] by (simp add: wf_tensor_def tensor_of2_def)
qed

lemma mean_nll_nonneg:
  assumes "length (flat out) = length (flat Y) * C" "last (shape out) = C"
    and "list_all (\<lambda>t. 0 \<le> t \<and> t < int C) (flat Y)"
    and "\<And>v. v \<in> set (flat out) \<Longrightarrow> v \<le> 0"
  shows "0 \<le> mean_nll out Y"
proof -
  have "0 \<le> - (flat out ! (r * C + nat (flat Y ! r)))" if "r < length (flat Y)" for r
  proof -
    from that assms(3) have t: "0 \<le> flat Y ! r" "flat Y ! r < int C"
      by (simp_all add: list_all_length)
    then have "nat (flat Y ! r) < C" by linarith
    then have "r * C + nat (flat Y ! r) < Suc r * C" by simp
    also have "\<dots> \<le> length (flat Y) * C" using that by (intro mult_le_mono1) simp
    finally have "r * C + nat (flat Y ! r) < length (flat out)" using assms(1) by simp
    then have "flat out ! (r * C + nat (flat Y ! r)) \<in> set (flat out)" by (rule nth_mem)
    from assms(4) [OF this] show ?thesis by simp
  qed
  then have "0 \<le> (\<Sum>r\<leftarrow>[0..<length (flat Y)]. - (flat out ! (r * C + nat (flat Y ! r))))"
    by (intro sum_list_nonneg) auto
  then show ?thesis by (simp add: mean_nll_def assms(2))
qed

lemma forward_loss_ok:
  assumes "wf_hyper hp" and "wf_GPTLanguageModel hp V m"
    and "is_mat B T idx" and "is_mat B T Y"
    and "0 < B" and "0 < T" and "T \<le> block_size hp"
    and "valid_targets V (concat Y)"
  shows "\<exists>logits loss g'.
      GPTLanguageModel_call hp training m idx (Some Y) g = Inr ((logits, Some loss), g')
    \<and> is_tensor3 B T V logits \<and> 0 \<le> loss"
proof -
  from GPT_logits_wf [OF assms(1,2,3), of training g] obtain logits g'
    where l: "GPT_logits hp training m idx g = Inr (logits, g')" "is_tensor3 B T V logits"
    by blast
  let ?p = "map (map log_softmax) logits"
  let ?out = "tensor_of3 ?p"
  let ?Y = "tensor_of2 Y"
  have psh: "is_tensor3 B T V ?p" using l(2) by (rule predictions_shape)
  have out: "shape ?out = [B, T, V]" "wf_tensor ?out"
    using tensor_of3_shape [OF psh assms(5,6)] by simp_all
  have Y: "shape ?Y = [B, T]" "wf_tensor ?Y"
    using tensor_of2_shape [OF assms(4,5)] by simp_all
  have sh: "shape ?out = shape ?Y @ [V]" using out(1) Y(1) by simp
  have fl: "flat ?Y = concat Y" by (simp add: tensor_of2_def)
  have ne: "flat ?Y \<noteq> []"
  proof -
    have "length (concat Y) = B * T" using assms(4) by (rule length_concat_mat)
    with assms(5,6) have pos: "0 < length (concat Y)" by simp
    show ?thesis
    proof
      assume "flat ?Y = []"
      then have "concat Y = []" by (simp only: fl)
      then have "length (concat Y) = 0" by (simp only: list.size)
      with pos show False by simp
    qed
  qed
  have val: "valid_targets V (flat ?Y)" using assms(8) by (simp add: fl)
  have ce: "cross_entropy ?out ?Y = Inr (mean_nll ?out ?Y)"
    using cross_entropy_spec [OF out(2) Y(2) sh ne val]
      spec_cross_entropy_mean_nll [OF out(2) Y(2) sh ne val] by simp
  have len: "length (flat ?out) = length (flat ?Y) * V"
    using out Y by (simp add: wf_tensor_def)
  have "0 \<le> mean_nll ?out ?Y"
  proof (rule mean_nll_nonneg [OF len _ valid_targets_range [OF val]])
    show "last (shape ?out) = V" using out(1) by simp
  next
    fix v assume "v \<in> set (flat ?out)"
    then show "v \<le> 0" using predictions_nonpos [of v logits] by (simp add: tensor_of3_def)
  qed
  moreover have "GPTLanguageModel_call hp training m idx (Some Y) g
      = Inr ((logits, Some (mean_nll ?out ?Y)), g')"
    by (simp add: GPTLanguageModel_call_def l(1) ebind_Inr Let_def ce)
  ultimately show ?thesis using l(2) by blast
qed

text \<open>
  C7. For a batch of inputs and targets of shape \<open>(B, T)\<close> with \<open>1 \<le> T \<le> block_size\<close>,
  at least one row and targets that are tokens of the vocabulary, the forward pass of
  a network built by the constructors returns logits of shape \<open>(B, T, vocab)\<close> and a
  loss: no operation on the way finds operands of different shapes, and the loss,
  computed in exact arithmetic, is not negative. That the loss is finite is not part
  of the statement: it holds of every real number, and it fails on float32, as the
  section after this one shows.
\<close>

theorem forward_loss_nonneg:
  assumes "wf_hyper hp" and "wf_GPTLanguageModel hp V m"
    and "is_mat B T idx" and "is_mat B T Y"
    and "0 < B" and "0 < T" and "T \<le> block_size hp"
    and "valid_targets V (concat Y)"
  shows "\<exists>logits loss g'.
      GPTLanguageModel_call hp training m idx (Some Y) g = Inr ((logits, Some loss), g')
    \<and> is_tensor3 B T V logits \<and> 0 \<le> loss"
  using assms by (rule forward_loss_ok)

theorem forward_loss_nonneg_witness:
  "wf_hyper (example_hyper 2) \<and> wf_GPTLanguageModel (example_hyper 2) 2 (example_model 2)
   \<and> is_mat 1 2 [[0, 1 :: int]] \<and> is_mat 1 2 [[1, 0 :: int]]
   \<and> (0::nat) < 1 \<and> (0::nat) < 2 \<and> 2 \<le> block_size (example_hyper 2)
   \<and> valid_targets 2 (concat [[1, 0]])
   \<and> (\<exists>logits loss g'.
        GPTLanguageModel_call (example_hyper 2) True (example_model 2) [[0, 1]] (Some [[1, 0]])
          (\<lambda>i. 1 / 2) = Inr ((logits, Some loss), g')
      \<and> is_tensor3 1 2 2 logits \<and> 0 \<le> loss)"
proof -
  have a: "wf_hyper (example_hyper 2)" by (rule example_hyper_wf)
  have b: "wf_GPTLanguageModel (example_hyper 2) 2 (example_model 2)" by (rule example_model_wf)
  have c: "is_mat 1 2 [[0, 1 :: int]]" by (simp add: is_mat_def)
  have d: "is_mat 1 2 [[1, 0 :: int]]" by (simp add: is_mat_def)
  have e: "(0::nat) < 1" by simp
  have f: "(0::nat) < 2" by simp
  have h: "2 \<le> block_size (example_hyper 2)" by (simp add: example_hyper_def)
  have i: "valid_targets 2 (concat [[1, 0]])" by (simp add: valid_targets_def)
  note t = forward_loss_nonneg [OF a b c d e f h i, of True "\<lambda>i. 1 / 2"]
  from a b c d e f h i t show ?thesis by (intro conjI)
qed

section \<open>Facts about float32 infinities in the loss\<close>

lemma f32_max_pos: "0 < f32_max"
  by (simp add: f32_max_def)

lemma f32_max_lt: "f32_max < 2 * two_127"
  by (simp add: f32_max_def two_127_def)

lemma f32_max_ge: "two_127 \<le> f32_max"
  by (simp add: f32_max_def two_127_def)

lemma two_127_pos: "0 < two_127"
  by (simp add: two_127_def)

lemma f32_round_0: "f32_round 0 = Num 0"
  using f32_max_pos by (simp add: f32_round_def)

lemma f32_round_1: "f32_round 1 = Num 1"
  by (simp add: f32_round_def f32_max_def)

lemma f32_round_big: "f32_round two_127 = Num two_127"
  using f32_max_ge f32_max_pos two_127_pos by (simp add: f32_round_def)

lemma f32_round_small: "f32_round (- two_127) = Num (- two_127)"
  using f32_max_ge f32_max_pos two_127_pos by (simp add: f32_round_def)

lemma f32_round_under: "f32_round (- (2 * two_127)) = MInf"
  using f32_max_lt f32_max_pos by (simp add: f32_round_def)

lemma exp_two_127: "f32_max < exp two_127"
proof -
  have "2 * two_127 \<le> 1 + two_127 + two_127\<^sup>2 / 2" by (simp add: two_127_def)
  also have "\<dots> \<le> exp two_127" using two_127_pos by (intro exp_lower_Taylor_quadratic) simp
  finally show ?thesis using f32_max_lt by simp
qed

lemma f32_round_exp_big: "f32_round (exp two_127) = PInf"
  using exp_two_127 by (simp add: f32_round_def)

lemma f32_round_exp_small: "f32_round (exp (- two_127)) = Num (exp (- two_127))"
proof -
  have "exp (- two_127) \<le> 1" using two_127_pos by simp
  also have "\<dots> \<le> f32_max" by (simp add: f32_max_def)
  finally have "\<not> f32_max < exp (- two_127)" by simp
  moreover have "\<not> exp (- two_127) < - f32_max"
    using f32_max_pos by (smt (verit) exp_gt_zero)
  ultimately show ?thesis by (simp add: f32_round_def)
qed

lemma f32_add_NaN: "f32_add x NaN = NaN"
  by (cases x) simp_all

text \<open>The logits of the network with the large biases: the biases, or NaN.\<close>

lemma overflow_logits:
  "Linear_call_f32 (lm_head (overflow_model bs)) [[[v]]]
    = Inr [[case v of Num r \<Rightarrow> [Num two_127, Num (- two_127)] | _ \<Rightarrow> [NaN, NaN]]]"
  by (cases v)
    (simp_all add: overflow_model_def Linear_call_f32_def Linear_row_f32_def ebind_def
      f32_sum_def f32_round_0 f32_round_big f32_round_small f32_signed_inf_def)

text \<open>Their log-softmax holds \<open>-inf\<close>, computed either way.\<close>

lemma overflow_log_softmax:
  "log_softmax_f32 shift [Num two_127, Num (- two_127)]
    = (if shift then [Num 0, MInf] else [MInf, MInf])"
  using two_127_pos
  by (simp add: log_softmax_f32_def Let_def f32_sub_def f32_sum_def f32_round_0 f32_round_1
      f32_round_under f32_round_exp_big f32_round_exp_small)

lemma log_softmax_f32_NaN: "log_softmax_f32 shift [NaN, NaN] = [NaN, NaN]"
  by (simp add: log_softmax_f32_def Let_def f32_sub_def f32_sum_def)

text \<open>
  The target tensor holds 0 at every class but the true one, and \<open>-inf\<close> times 0 is
  NaN.
\<close>

lemma cross_entropy_f32_MInf:
  assumes "b = MInf \<or> b = NaN"
  shows "cross_entropy_f32 (tensor_of3 [[[a, b]]]) (tensor_of2 [[0]]) = Inr NaN"
proof -
  have m: "f32_mul b (Num 0) = NaN" using assms by (auto simp: f32_signed_inf_def)
  show ?thesis
    by (simp add: cross_entropy_f32_def tensor_of3_def tensor_of2_def ncols_def Let_def
        astype_int32_def np_zeros_def Tensor_mul_f32_def Tensor_mean_f32_def m f32_sum_def
        f32_add_NaN)
qed

lemma overflow_model_wf: "wf_GPTLanguageModel (example_hyper bs) 2 (overflow_model bs)"
  using example_model_wf [of bs]
  by (simp add: wf_GPTLanguageModel_def overflow_model_def wf_Linear_def is_mat_def
      example_hyper_def tinygpt_hyper_def)

text \<open>
  The loss is not always finite. The network with the output biases \<open>2\<^sup>1\<^sup>2\<^sup>7\<close> and
  \<open>- 2\<^sup>1\<^sup>2\<^sup>7\<close> is built as the constructors build it, and the batch of the one token
  0 with the target 0 is valid. Whatever value \<open>v\<close> the blocks and the final
  normalisation leave as the hidden state, a number, an infinity or NaN, the loss that
  lines 170 to 178 compute on float32 is NaN, whichever way the library computes the
  log-softmax: the two logits differ by more than the range of float32, the
  log-softmax of the second is \<open>-inf\<close>, and \<^verbatim>\<open>cross_entropy\<close> multiplies it by the 0 of
  the target tensor.
\<close>

theorem forward_loss_float32_nan:
  "wf_hyper (example_hyper 1) \<and> wf_GPTLanguageModel (example_hyper 1) 2 (overflow_model 1)
   \<and> is_mat 1 1 [[0 :: int]] \<and> valid_targets 2 (concat [[0]])
   \<and> (\<forall>shift v. lm_head_loss_f32 shift (overflow_model 1) [[[v]]] [[0]] = Inr NaN)
   \<and> \<not> f32_finite NaN"
proof -
  have "lm_head_loss_f32 shift (overflow_model 1) [[[v]]] [[0]] = Inr NaN" for shift v
    unfolding lm_head_loss_f32_def overflow_logits ebind_def
    by (cases v; cases shift)
       (simp_all add: overflow_log_softmax log_softmax_f32_NaN cross_entropy_f32_MInf)
  then show ?thesis
    using example_hyper_wf [of 1] overflow_model_wf [of 1]
    by (simp add: is_mat_def valid_targets_def f32_finite_def)
qed

section \<open>Facts about sampling\<close>

lemma py_slice_last:
  assumes "0 < n"
  shows "py_slice row (- int n) (int (length row)) = drop (length row - n) row"
proof -
  have "nat (max 0 (- int n + int (length row))) = length row - n" by auto
  then show ?thesis using assms by (simp add: py_slice_def Let_def)
qed

lemma crop_drop:
  assumes "0 < block_size hp"
  shows "crop hp idx = map (\<lambda>row. drop (length row - block_size hp) row) idx"
  using assms by (simp add: crop_def py_slice_last)

lemma crop_shape:
  assumes "0 < block_size hp" "is_mat B T idx"
  shows "is_mat B (min T (block_size hp)) (crop hp idx)"
  using assms by (auto simp: crop_drop is_mat_nth)

lemma softmax_length: "length (softmax xs) = length xs"
  by (simp add: softmax_def)

lemma sum_exp_pos:
  fixes l :: "real list"
  assumes "l \<noteq> []"
  shows "0 < (\<Sum>y\<leftarrow>l. exp y)"
proof -
  from assms obtain x where "x \<in> set l" by (cases l) auto
  then have "exp x \<le> (\<Sum>y\<leftarrow>l. exp y)" by (rule exp_le_sum_exp)
  moreover have "0 < exp x" by simp
  ultimately show ?thesis by linarith
qed

lemma softmax_Fin: "softmax (map Fin l) = map (\<lambda>x. exp x / (\<Sum>y\<leftarrow>l. exp y)) l"
  by (simp add: softmax_def comp_def)

lemma softmax_Fin_sum:
  assumes "l \<noteq> []"
  shows "sum_list (softmax (map Fin l)) = 1"
proof -
  let ?S = "\<Sum>y\<leftarrow>l. exp y"
  have "sum_list (softmax (map Fin l)) = (\<Sum>x\<leftarrow>l. exp x * (1 / ?S))"
    by (simp add: softmax_Fin comp_def)
  also have "\<dots> = ?S * (1 / ?S)" by (rule sum_list_mult_const)
  also have "\<dots> = 1" using sum_exp_pos [OF assms] by simp
  finally show ?thesis .
qed

lemma softmax_Fin_nonneg:
  assumes "l \<noteq> []" "x \<in> set (softmax (map Fin l))"
  shows "0 \<le> x"
proof -
  from assms(2) obtain y where "x = exp y / (\<Sum>y\<leftarrow>l. exp y)"
    by (auto simp: softmax_Fin)
  then show ?thesis using sum_exp_pos [OF assms(1)] by simp
qed

lemma length_cumsum_from: "length (cumsum_from a xs) = length xs"
  by (induction xs arbitrary: a) simp_all

lemma last_cumsum_from: "xs \<noteq> [] \<Longrightarrow> last (cumsum_from a xs) = a + sum_list xs"
proof (induction xs arbitrary: a)
  case Nil
  then show ?case by simp
next
  case (Cons x xs)
  show ?case
  proof (cases xs)
    case Nil
    then show ?thesis by simp
  next
    case (Cons y ys)
    then have "xs \<noteq> []" by simp
    from Cons.IH [OF this, of "a + x"] Cons show ?thesis by simp
  qed
qed

lemma takeWhile_shorter:
  assumes "xs \<noteq> []" "\<not> P (last xs)"
  shows "length (takeWhile P xs) < length xs"
proof (rule ccontr)
  assume "\<not> length (takeWhile P xs) < length xs"
  then have "length (takeWhile P xs) = length xs"
    using length_takeWhile_le [of P xs] by simp
  then have "takeWhile P xs = xs"
    using takeWhile_eq_take [of P xs] by simp
  then have "\<forall>x \<in> set xs. P x" by (simp add: takeWhile_eq_all_conv)
  with assms show False by simp
qed

lemma softmax_Fin_pos:
  assumes "l \<noteq> []"
  shows "list_all (\<lambda>x. 0 < x) (softmax (map Fin l))"
  using sum_exp_pos [OF assms] by (simp add: softmax_Fin list_all_iff)

lemma cumsum_from_nth:
  "j < length xs \<Longrightarrow> cumsum_from a xs ! j = a + sum_list (take (Suc j) xs)"
proof (induction xs arbitrary: a j)
  case Nil
  then show ?case by simp
next
  case (Cons x xs)
  show ?case
  proof (cases j)
    case 0
    then show ?thesis by simp
  next
    case (Suc i)
    with Cons.prems have "i < length xs" by simp
    from Cons.IH [OF this, of "a + x"] Suc show ?thesis by simp
  qed
qed

lemma takeWhile_before: "j < length (takeWhile P xs) \<Longrightarrow> P (xs ! j)"
  by (metis nth_mem set_takeWhileD takeWhile_nth)

lemma np_random_choice_softmax:
  assumes "l \<noteq> []" "0 \<le> u" "u < 1"
  shows "\<exists>i. np_random_choice (softmax (map Fin l)) u = Inr i \<and> i < length l
    \<and> inverse_cdf (softmax (map Fin l)) u i"
proof -
  let ?p = "softmax (map Fin l)"
  let ?cdf = "cumsum_from 0 ?p"
  let ?cdf' = "map (\<lambda>c. c / last ?cdf) ?cdf"
  have ne: "?p \<noteq> []" using assms(1) by (simp add: softmax_def)
  have nonneg: "\<not> list_ex (\<lambda>x. x < 0) ?p"
    using softmax_Fin_nonneg [OF assms(1)] by (auto simp: list_ex_iff not_less)
  have sum: "sum_list ?p = 1" using assms(1) by (rule softmax_Fin_sum)
  have tol: "\<not> choice_atol < \<bar>sum_list ?p - 1\<bar>" by (simp add: sum choice_atol_def)
  have cne: "?cdf \<noteq> []" using ne length_cumsum_from [of 0 ?p] by (metis length_0_conv)
  have lc: "last ?cdf = 1" using last_cumsum_from [OF ne, of 0] sum by simp
  have "last ?cdf' = 1" using cne lc by (simp add: last_map)
  then have "\<not> (\<lambda>c. c \<le> u) (last ?cdf')" using assms(3) by simp
  moreover have "?cdf' \<noteq> []" using cne by simp
  ultimately have "length (takeWhile (\<lambda>c. c \<le> u) ?cdf') < length ?cdf'"
    by (intro takeWhile_shorter)
  then have short: "length (takeWhile (\<lambda>c. c \<le> u) ?cdf') < length ?cdf'" .
  define k where "k = length (takeWhile (\<lambda>c. c \<le> u) ?cdf')"
  have kp: "k < length ?p" using short by (simp add: k_def length_cumsum_from)
  have kl: "k < length l" using kp by (simp add: softmax_length)
  have run: "np_random_choice ?p u = Inr k"
    using ne nonneg tol by (simp add: np_random_choice_def Let_def k_def)
  have nth: "?cdf' ! j = sum_list (take (Suc j) ?p)" if "j < length ?p" for j
    using that cumsum_from_nth [OF that, of 0] lc by (simp add: length_cumsum_from)
  have "\<not> ?cdf' ! k \<le> u"
    using nth_length_takeWhile [OF short] by (simp add: k_def)
  then have upper: "u < sum_list (take (Suc k) ?p)" using nth [OF kp] by simp
  have lower: "sum_list (take k ?p) \<le> u"
  proof (cases k)
    case 0
    then show ?thesis using assms(2) by simp
  next
    case (Suc j)
    then have "j < length (takeWhile (\<lambda>c. c \<le> u) ?cdf')" by (simp add: k_def)
    then have "?cdf' ! j \<le> u" by (rule takeWhile_before)
    moreover have "j < length ?p" using kp Suc by simp
    ultimately show ?thesis using nth [of j] Suc by simp
  qed
  show ?thesis using run kl kp upper lower by (simp add: inverse_cdf_def)
qed

lemma unit_draws_skip: "unit_draws g \<Longrightarrow> unit_draws (rng_skip n g)"
  by (simp add: unit_draws_def rng_skip_def)

lemma rng_skip_skip: "rng_skip n (rng_skip k g) = rng_skip (k + n) g"
  by (simp add: rng_skip_def add.assoc)

lemma sample_rows_softmax:
  assumes "unit_draws g" "list_all (\<lambda>l. length l = V) ls" "0 < V"
  shows "\<exists>js. sample_rows (map (\<lambda>l. softmax (map Fin l)) ls) g = Inr (js, rng_skip (length ls) g)
    \<and> length js = length ls \<and> list_all (\<lambda>j. j < V) js
    \<and> (\<forall>b < length ls. inverse_cdf (softmax (map Fin (ls ! b))) (g b) (js ! b))"
  using assms(1,2)
proof (induction ls arbitrary: g)
  case Nil
  show ?case by (simp add: rng_skip_def)
next
  case (Cons l ls)
  then have l: "length l = V" and ls: "list_all (\<lambda>l. length l = V) ls" by simp_all
  have lne: "l \<noteq> []" using l assms(3) by auto
  have u: "0 \<le> g 0" "g 0 < 1" using Cons.prems(1) by (simp_all add: unit_draws_def)
  from np_random_choice_softmax [OF lne u] obtain i
    where i: "np_random_choice (softmax (map Fin l)) (g 0) = Inr i" "i < length l"
      "inverse_cdf (softmax (map Fin l)) (g 0) i" by blast
  from Cons.IH [OF unit_draws_skip [OF Cons.prems(1)] ls, of 1] obtain js
    where js: "sample_rows (map (\<lambda>l. softmax (map Fin l)) ls) (rng_skip 1 g)
        = Inr (js, rng_skip (length ls) (rng_skip 1 g))"
      "length js = length ls" "list_all (\<lambda>j. j < V) js"
      and cdf: "\<And>b. b < length ls \<Longrightarrow>
        inverse_cdf (softmax (map Fin (ls ! b))) (rng_skip 1 g b) (js ! b)" by blast
  have each: "inverse_cdf (softmax (map Fin ((l # ls) ! b))) (g b) ((i # js) ! b)"
    if "b < length (l # ls)" for b
  proof (cases b)
    case 0
    then show ?thesis using i(3) by simp
  next
    case (Suc c)
    with that have "c < length ls" by simp
    from cdf [OF this] Suc show ?thesis by (simp add: rng_skip_def)
  qed
  have run: "sample_rows (map (\<lambda>l. softmax (map Fin l)) (l # ls)) g
      = Inr (i # js, rng_skip (length (l # ls)) g)"
    using i(1) js(1) by (simp add: ebind_Inr rng_skip_skip)
  show ?case
    apply (rule exI [of _ "i # js"])
    using run i(2) js(2,3) l each by simp
qed

section \<open>Facts about generation\<close>

lemma emap_map:
  assumes "\<And>x. x \<in> set xs \<Longrightarrow> f x = Inr (h x)"
  shows "emap f xs = Inr (map h xs)"
  using assms by (induction xs) (simp_all add: ebind_Inr)

lemma model_call_logits:
  assumes "wf_hyper hp" "wf_GPTLanguageModel hp V m" "is_mat B T idx"
  shows "\<exists>logits w'. model_call hp m idx None w = Inr ((logits, None), w')
    \<and> is_tensor3 B T V logits \<and> np_random w' = np_random w
    \<and> Tensor_training w' = Tensor_training w"
proof -
  from GPT_logits_wf [OF assms, of "Tensor_training w" "Tensor_rng w"] obtain logits g'
    where l: "GPT_logits hp (Tensor_training w) m idx (Tensor_rng w) = Inr (logits, g')"
      "is_tensor3 B T V logits" by blast
  have "model_call hp m idx None w = Inr ((logits, None), w\<lparr>Tensor_rng := g'\<rparr>)"
    by (simp add: model_call_def GPTLanguageModel_call_def l(1) ebind_Inr)
  with l(2) show ?thesis by force
qed

lemma decode_single:
  assumes "i < vocab_size corpus"
  shows "decode corpus [int i] = Inr [chars corpus ! i]"
  using itos_nth [of i corpus] assms by (simp add: decode_def vocab_size_def)

lemma append_tokens_shape:
  assumes "0 < block_size hp" "is_mat B T idx" "length js = B"
  shows "is_mat B (min (T + 1) (block_size hp)) (append_tokens hp idx js)"
proof -
  have "is_mat B (T + 1) (map2 (\<lambda>row i. row @ [int i]) idx js)"
    using assms(2,3) by (simp add: is_mat_nth)
  from crop_shape [OF assms(1) this] show ?thesis by (simp add: append_tokens_def)
qed

lemma generate_step_ok:
  fixes corpus :: "'a::linorder list"
  assumes wf: "wf_hyper hp" "wf_GPTLanguageModel hp (vocab_size corpus) m"
    and pos: "0 < vocab_size corpus" "0 < B" "0 < T" "0 < block_size hp"
    and idx: "is_mat B T (gen_idx st)"
    and draws: "unit_draws (np_random (gen_world st))"
  shows "\<exists>e. generate_step hp m corpus st
        = Inr \<lparr> gen_idx = append_tokens hp (gen_idx st) (sl_next e),
                gen_out = gen_out st @ [chars corpus ! (sl_next e ! 0)],
                gen_world = (sl_after e)\<lparr>np_random := rng_skip B (np_random (sl_after e))\<rparr>,
                gen_steps = gen_steps st @ [e] \<rparr>
      \<and> sl_idx e = gen_idx st \<and> sl_world e = gen_world st
      \<and> step_facts hp m B (min T (block_size hp)) (vocab_size corpus) e
      \<and> unit_draws (rng_skip B (np_random (sl_after e)))"
proof -
  let ?V = "vocab_size corpus"
  let ?Tc = "min T (block_size hp)"
  let ?ctx = "crop hp (gen_idx st)"
  have Tc: "0 < ?Tc" using pos by simp
  have ctx: "is_mat B ?Tc ?ctx" using pos(4) idx by (rule crop_shape)
  from model_call_logits [OF wf ctx, of "gen_world st"] obtain logits w
    where mc: "model_call hp m ?ctx None (gen_world st) = Inr ((logits, None), w)"
      and lsh: "is_tensor3 B ?Tc ?V logits"
      and np: "np_random w = np_random (gen_world st)" by blast
  have rows: "\<And>mt. mt \<in> set logits \<Longrightarrow> mt \<noteq> [] \<and> length (last mt) = ?V"
  proof -
    fix mt assume "mt \<in> set logits"
    with lsh have mt: "is_mat ?Tc ?V mt" by (simp add: is_tensor3_def list_all_iff)
    with Tc have ne: "mt \<noteq> []" by (auto simp: is_mat_def)
    then have "last mt \<in> set mt" by simp
    with mt have "length (last mt) = ?V" by (simp add: is_mat_def list_all_iff)
    with ne show "mt \<noteq> [] \<and> length (last mt) = ?V" by simp
  qed
  have ls: "last_step logits = Inr (map last logits)"
    unfolding last_step_def using rows by (intro emap_map) simp
  have probs: "map (\<lambda>l. softmax (map Fin l)) (map last logits)
      = map (\<lambda>mt. softmax (map Fin (last mt))) logits" by simp
  have all: "list_all (\<lambda>l. length l = ?V) (map last logits)"
    using rows by (simp add: list_all_iff)
  have dw: "unit_draws (np_random w)" using draws np by simp
  from sample_rows_softmax [OF dw all pos(1)] obtain js
    where js: "sample_rows (map (\<lambda>l. softmax (map Fin l)) (map last logits)) (np_random w)
        = Inr (js, rng_skip (length (map last logits)) (np_random w))"
      "length js = length (map last logits)" "list_all (\<lambda>j. j < ?V) js"
      and cdf: "\<And>b. b < length (map last logits) \<Longrightarrow>
        inverse_cdf (softmax (map Fin (map last logits ! b))) (np_random w b) (js ! b)" by blast
  have lenl: "length (map last logits) = B" using lsh by (simp add: is_tensor3_def)
  have dist: "length (last (logits ! b)) = ?V
      \<and> list_all (\<lambda>x. 0 < x) (softmax (map Fin (last (logits ! b))))
      \<and> sum_list (softmax (map Fin (last (logits ! b)))) = 1
      \<and> inverse_cdf (softmax (map Fin (last (logits ! b)))) (np_random (gen_world st) b) (js ! b)"
    if "b < B" for b
  proof -
    have b: "b < length logits" using that lenl by simp
    then have "logits ! b \<in> set logits" by simp
    from rows [OF this] have len: "length (last (logits ! b)) = ?V" by simp
    with pos(1) have ne: "last (logits ! b) \<noteq> []" by auto
    have "inverse_cdf (softmax (map Fin (last (logits ! b)))) (np_random w b) (js ! b)"
      using cdf [of b] b by simp
    with softmax_Fin_pos [OF ne] softmax_Fin_sum [OF ne] np len show ?thesis by simp
  qed
  have lenj: "length js = B" using js(2) lenl by simp
  from lenj pos(2) obtain i0 rest where j0: "js = i0 # rest" by (cases js) auto
  with js(3) have i0: "i0 < ?V" by simp
  have dec: "decode corpus [int i0] = Inr [chars corpus ! i0]" using i0 by (rule decode_single)
  have leni: "length (gen_idx st) = B" using idx by (simp add: is_mat_def)
  have cat: "cat_dim1 (gen_idx st) js = Inr (map2 (\<lambda>row i. row @ [int i]) (gen_idx st) js)"
    using leni lenj by (simp add: cat_dim1_def)
  define e where "e = \<lparr> sl_idx = gen_idx st, sl_world = gen_world st, sl_cond = ?ctx,
      sl_logits = logits, sl_after = w, sl_next = js \<rparr>"
  have sample: "sample_rows (map (\<lambda>mt. softmax (map Fin (last mt))) logits) (np_random w)
      = Inr (js, rng_skip B (np_random w))"
    using js(1) unfolding probs lenl .
  have step: "generate_step hp m corpus st
      = Inr \<lparr> gen_idx = append_tokens hp (gen_idx st) js,
              gen_out = gen_out st @ [chars corpus ! i0],
              gen_world = w\<lparr>np_random := rng_skip B (np_random w)\<rparr>,
              gen_steps = gen_steps st @ [e] \<rparr>"
    unfolding generate_step_def Let_def mc ebind_Inr prod.case ls probs sample
    unfolding j0 list.case dec cat [unfolded j0] ebind_Inr
    by (simp add: append_tokens_def e_def j0)
  have facts: "step_facts hp m B ?Tc ?V e"
    unfolding step_facts_def e_def using ctx mc lsh sample lenj js(3) np dist by simp
  have "unit_draws (rng_skip B (np_random w))" using dw by (rule unit_draws_skip)
  with step facts show ?thesis
    by (intro exI [of _ e]) (simp add: e_def j0)
qed

lemma min_crop_step: "min (min (T + 1) bs + j) bs = min (T + Suc j) (bs::nat)"
  by (simp add: min_def)

lemma generate_loop_ok:
  fixes corpus :: "'a::linorder list"
  assumes wf: "wf_hyper hp" "wf_GPTLanguageModel hp (vocab_size corpus) m"
    and pos: "0 < vocab_size corpus" "0 < B" "0 < block_size hp"
    and T: "0 < T"
    and idx: "is_mat B T (gen_idx st)"
    and draws: "unit_draws (np_random (gen_world st))"
  shows "\<exists>st' es. generate_loop hp m corpus N st = Inr st'
      \<and> gen_steps st' = gen_steps st @ es \<and> length es = N
      \<and> gen_out st' = gen_out st @ map (\<lambda>e. chars corpus ! (sl_next e ! 0)) es
      \<and> (\<forall>i < N. step_facts hp m B (min (T + i) (block_size hp)) (vocab_size corpus) (es ! i))
      \<and> (\<forall>i < N. sl_idx (es ! i) =
            (if i = 0 then gen_idx st
             else append_tokens hp (sl_idx (es ! (i - 1))) (sl_next (es ! (i - 1)))))
      \<and> gen_idx st' =
            (if N = 0 then gen_idx st
             else append_tokens hp (sl_idx (last es)) (sl_next (last es)))
      \<and> (\<forall>i < N. sl_world (es ! i) =
            (if i = 0 then gen_world st
             else (sl_after (es ! (i - 1)))\<lparr>np_random := rng_skip B (np_random (sl_after (es ! (i - 1))))\<rparr>))
      \<and> (\<forall>i < N. np_random (sl_world (es ! i)) = rng_skip (i * B) (np_random (gen_world st)))
      \<and> gen_world st' =
            (if N = 0 then gen_world st
             else (sl_after (last es))\<lparr>np_random := rng_skip B (np_random (sl_after (last es)))\<rparr>)"
  using T idx draws
proof (induction N arbitrary: st T)
  case 0
  show ?case by simp
next
  case (Suc N)
  let ?bs = "block_size hp"
  let ?V = "vocab_size corpus"
  from generate_step_ok [OF wf pos(1,2) Suc.prems(1) pos(3) Suc.prems(2,3)] obtain e
    where step: "generate_step hp m corpus st
        = Inr \<lparr> gen_idx = append_tokens hp (gen_idx st) (sl_next e),
                gen_out = gen_out st @ [chars corpus ! (sl_next e ! 0)],
                gen_world = (sl_after e)\<lparr>np_random := rng_skip B (np_random (sl_after e))\<rparr>,
                gen_steps = gen_steps st @ [e] \<rparr>"
      and e: "sl_idx e = gen_idx st" "step_facts hp m B (min T ?bs) ?V e"
        "sl_world e = gen_world st"
      and d1: "unit_draws (rng_skip B (np_random (sl_after e)))"
    by blast
  define st1 where "st1 = \<lparr> gen_idx = append_tokens hp (gen_idx st) (sl_next e),
      gen_out = gen_out st @ [chars corpus ! (sl_next e ! 0)],
      gen_world = (sl_after e)\<lparr>np_random := rng_skip B (np_random (sl_after e))\<rparr>,
      gen_steps = gen_steps st @ [e] \<rparr>"
  have lenj: "length (sl_next e) = B" using e(2) by (simp add: step_facts_def)
  have T1: "0 < min (T + 1) ?bs" using pos(3) by simp
  have idx1: "is_mat B (min (T + 1) ?bs) (gen_idx st1)"
    using append_tokens_shape [OF pos(3) Suc.prems(2) lenj] by (simp add: st1_def)
  have draws1: "unit_draws (np_random (gen_world st1))" using d1 by (simp add: st1_def)
  from Suc.IH [OF T1 idx1 draws1] obtain st' es
    where loop: "generate_loop hp m corpus N st1 = Inr st'"
      and steps: "gen_steps st' = gen_steps st1 @ es" "length es = N"
      and out: "gen_out st' = gen_out st1 @ map (\<lambda>e. chars corpus ! (sl_next e ! 0)) es"
      and facts: "\<And>i. i < N \<Longrightarrow> step_facts hp m B (min (min (T + 1) ?bs + i) ?bs) ?V (es ! i)"
      and chain: "\<And>i. i < N \<Longrightarrow> sl_idx (es ! i) =
            (if i = 0 then gen_idx st1
             else append_tokens hp (sl_idx (es ! (i - 1))) (sl_next (es ! (i - 1))))"
      and final: "gen_idx st' =
            (if N = 0 then gen_idx st1
             else append_tokens hp (sl_idx (last es)) (sl_next (last es)))"
      and wchain: "\<And>i. i < N \<Longrightarrow> sl_world (es ! i) =
            (if i = 0 then gen_world st1
             else (sl_after (es ! (i - 1)))\<lparr>np_random := rng_skip B (np_random (sl_after (es ! (i - 1))))\<rparr>)"
      and wdraw: "\<And>i. i < N \<Longrightarrow>
            np_random (sl_world (es ! i)) = rng_skip (i * B) (np_random (gen_world st1))"
      and wfinal: "gen_world st' =
            (if N = 0 then gen_world st1
             else (sl_after (last es))\<lparr>np_random := rng_skip B (np_random (sl_after (last es)))\<rparr>)"
    by blast
  have npe: "np_random (sl_after e) = np_random (gen_world st)"
    using e(2,3) by (simp add: step_facts_def)
  have np1: "np_random (gen_world st1) = rng_skip B (np_random (gen_world st))"
    using npe by (simp add: st1_def)
  have wchain': "sl_world ((e # es) ! i) =
      (if i = 0 then gen_world st
       else (sl_after ((e # es) ! (i - 1)))\<lparr>np_random := rng_skip B (np_random (sl_after ((e # es) ! (i - 1))))\<rparr>)"
    if "i < Suc N" for i
  proof (cases i)
    case 0
    then show ?thesis using e(3) by simp
  next
    case (Suc j)
    with that have j: "j < N" by simp
    show ?thesis
    proof (cases j)
      case 0
      with wchain [OF j] Suc show ?thesis by (simp add: st1_def)
    next
      case (Suc k)
      with wchain [OF j] \<open>i = Suc j\<close> show ?thesis by simp
    qed
  qed
  have wdraw': "np_random (sl_world ((e # es) ! i)) = rng_skip (i * B) (np_random (gen_world st))"
    if "i < Suc N" for i
  proof (cases i)
    case 0
    then show ?thesis using e(3) by (simp add: rng_skip_def)
  next
    case (Suc j)
    with that have j: "j < N" by simp
    from wdraw [OF j] Suc show ?thesis by (simp add: np1 rng_skip_skip)
  qed
  have wfinal': "gen_world st' = (sl_after (last (e # es)))\<lparr>np_random := rng_skip B (np_random (sl_after (last (e # es))))\<rparr>"
  proof (cases "N = 0")
    case True
    with steps(2) have "es = []" by simp
    with wfinal True show ?thesis by (simp add: st1_def)
  next
    case False
    with steps(2) have "es \<noteq> []" by auto
    with wfinal False show ?thesis by simp
  qed
  have run: "generate_loop hp m corpus (Suc N) st = Inr st'"
    using step loop by (simp add: ebind_Inr st1_def)
  have steps': "gen_steps st' = gen_steps st @ (e # es)" using steps(1) by (simp add: st1_def)
  have out': "gen_out st' = gen_out st @ map (\<lambda>e. chars corpus ! (sl_next e ! 0)) (e # es)"
    using out by (simp add: st1_def)
  have facts': "step_facts hp m B (min (T + i) ?bs) ?V ((e # es) ! i)" if "i < Suc N" for i
  proof (cases i)
    case 0
    then show ?thesis using e(2) by simp
  next
    case (Suc j)
    with that have "j < N" by simp
    from facts [OF this] show ?thesis unfolding min_crop_step using Suc by simp
  qed
  have chain': "sl_idx ((e # es) ! i) =
      (if i = 0 then gen_idx st
       else append_tokens hp (sl_idx ((e # es) ! (i - 1))) (sl_next ((e # es) ! (i - 1))))"
    if "i < Suc N" for i
  proof (cases i)
    case 0
    then show ?thesis using e(1) by simp
  next
    case (Suc j)
    with that have j: "j < N" by simp
    show ?thesis
    proof (cases j)
      case 0
      with chain [OF j] Suc e(1) show ?thesis by (simp add: st1_def)
    next
      case (Suc k)
      with chain [OF j] \<open>i = Suc j\<close> show ?thesis by simp
    qed
  qed
  have final': "gen_idx st' = append_tokens hp (sl_idx (last (e # es))) (sl_next (last (e # es)))"
  proof (cases "N = 0")
    case True
    with steps(2) have "es = []" by simp
    with final True e(1) show ?thesis by (simp add: st1_def)
  next
    case False
    with steps(2) have "es \<noteq> []" by auto
    with final False show ?thesis by simp
  qed
  show ?case
    apply (rule exI [of _ st'], rule exI [of _ "e # es"])
    using run steps' steps(2) out' facts' chain' final' wchain' wdraw' wfinal' by simp
qed

lemma vocab_size_pos: "corpus \<noteq> [] \<Longrightarrow> 0 < vocab_size corpus"
proof -
  assume "corpus \<noteq> []"
  then have "set (chars corpus) \<noteq> {}" by (simp add: chars_props)
  then show ?thesis by (simp add: vocab_size_def)
qed

text \<open>
  C3. For a seed context of shape \<open>(B, T)\<close> with at least one row and one token, a
  non-empty vocabulary, a block size of at least 1, a network built by the
  constructors and uniform draws of numpy in \<open>[0, 1)\<close>, \<^verbatim>\<open>generate\<close> returns after
  exactly \<open>N\<close> passes through its body with a string of \<open>N\<close> characters. In pass \<open>i\<close>
  the context is cropped to its last \<^verbatim>\<open>block_size\<close> tokens before the forward pass,
  which runs without targets on a context of shape \<open>(B, min (T + i) block_size)\<close>; the
  logits of the last position of every row, and only these, are softmaxed; one token
  is drawn per row from that distribution, each an index below \<^verbatim>\<open>vocab_size\<close>; the
  character of the first row's token is added to the output; and the tokens are
  appended to the context, which the next pass starts from. The distribution \<open>p\<close> of
  row \<open>b\<close> in pass \<open>i\<close> has \<^verbatim>\<open>vocab_size\<close> positive entries of sum 1, and the token \<open>k\<close>
  of that row is the one that draw number \<open>i * B + b\<close> of the generator of numpy
  selects from it: the draw lies in the \<open>k\<close>-th interval of the running sum of \<open>p\<close>, of
  length \<open>p ! k\<close>. Each pass starts from the global state the pass before left, with \<open>B\<close>
  draws of numpy consumed; the forward pass consumes none of them.
\<close>

theorem generate_tokens:
  fixes corpus :: "'a::linorder list"
  assumes "wf_hyper hp" and "wf_GPTLanguageModel hp (vocab_size corpus) m"
    and "corpus \<noteq> []"
    and "is_mat B T idx" and "0 < B" and "0 < T"
    and "0 < block_size hp"
    and "unit_draws (np_random w)"
  shows "\<exists>st. generate hp m corpus idx N w = Inr st
    \<and> length (gen_out st) = N \<and> length (gen_steps st) = N
    \<and> (\<forall>i < N.
          let e = gen_steps st ! i in
            sl_idx e = (if i = 0 then idx
                        else append_tokens hp (sl_idx (gen_steps st ! (i - 1)))
                               (sl_next (gen_steps st ! (i - 1))))
          \<and> sl_cond e = map (\<lambda>row. drop (length row - block_size hp) row) (sl_idx e)
          \<and> is_mat B (min (T + i) (block_size hp)) (sl_cond e)
          \<and> model_call hp m (sl_cond e) None (sl_world e) = Inr ((sl_logits e, None), sl_after e)
          \<and> is_tensor3 B (min (T + i) (block_size hp)) (vocab_size corpus) (sl_logits e)
          \<and> sample_rows (map (\<lambda>mt. softmax (map Fin (last mt))) (sl_logits e))
                (np_random (sl_after e))
              = Inr (sl_next e, rng_skip B (np_random (sl_after e)))
          \<and> length (sl_next e) = B
          \<and> list_all (\<lambda>t. t < vocab_size corpus) (sl_next e)
          \<and> gen_out st ! i = chars corpus ! (sl_next e ! 0))
    \<and> gen_idx st =
          (if N = 0 then idx
           else append_tokens hp (sl_idx (last (gen_steps st))) (sl_next (last (gen_steps st))))
    \<and> (\<forall>i < N. \<forall>b < B.
          let e = gen_steps st ! i;
              p = softmax (map Fin (last (sl_logits e ! b)));
              u = np_random w (i * B + b);
              k = sl_next e ! b
          in length p = vocab_size corpus \<and> list_all (\<lambda>x. 0 < x) p \<and> sum_list p = 1
             \<and> k < vocab_size corpus
             \<and> sum_list (take k p) \<le> u \<and> u < sum_list (take (Suc k) p))
    \<and> (\<forall>i < N.
          let e = gen_steps st ! i in
            sl_world e =
              (if i = 0 then w
               else (sl_after (gen_steps st ! (i - 1)))\<lparr>np_random := rng_skip B (np_random (sl_after (gen_steps st ! (i - 1))))\<rparr>)
          \<and> np_random (sl_after e) = np_random (sl_world e)
          \<and> np_random (sl_world e) = rng_skip (i * B) (np_random w))
    \<and> gen_world st =
          (if N = 0 then w
           else (sl_after (last (gen_steps st)))\<lparr>np_random := rng_skip B (np_random (sl_after (last (gen_steps st))))\<rparr>)"
proof -
  let ?st0 = "\<lparr> gen_idx = idx, gen_out = ([] :: 'a list), gen_world = w, gen_steps = [] \<rparr>"
  have V: "0 < vocab_size corpus" using assms(3) by (rule vocab_size_pos)
  have i0: "is_mat B T (gen_idx ?st0)" using assms(4) by simp
  have d0: "unit_draws (np_random (gen_world ?st0))" using assms(8) by simp
  from generate_loop_ok [OF assms(1,2) V assms(5,7,6) i0 d0, of N] obtain st es
    where loop: "generate_loop hp m corpus N ?st0 = Inr st"
      and steps0: "gen_steps st = gen_steps ?st0 @ es" "length es = N"
      and out0: "gen_out st = gen_out ?st0 @ map (\<lambda>e. chars corpus ! (sl_next e ! 0)) es"
      and facts0: "\<forall>i < N.
          step_facts hp m B (min (T + i) (block_size hp)) (vocab_size corpus) (es ! i)"
      and chain0: "\<forall>i < N. sl_idx (es ! i) =
            (if i = 0 then gen_idx ?st0
             else append_tokens hp (sl_idx (es ! (i - 1))) (sl_next (es ! (i - 1))))"
      and final0: "gen_idx st =
            (if N = 0 then gen_idx ?st0
             else append_tokens hp (sl_idx (last es)) (sl_next (last es)))"
      and wchain0: "\<forall>i < N. sl_world (es ! i) =
            (if i = 0 then gen_world ?st0
             else (sl_after (es ! (i - 1)))\<lparr>np_random := rng_skip B (np_random (sl_after (es ! (i - 1))))\<rparr>)"
      and wdraw0: "\<forall>i < N.
            np_random (sl_world (es ! i)) = rng_skip (i * B) (np_random (gen_world ?st0))"
      and wfinal0: "gen_world st =
            (if N = 0 then gen_world ?st0
             else (sl_after (last es))\<lparr>np_random := rng_skip B (np_random (sl_after (last es)))\<rparr>)"
    by blast
  have steps: "gen_steps st = es" "length es = N" using steps0 by simp_all
  have out: "gen_out st = map (\<lambda>e. chars corpus ! (sl_next e ! 0)) es" using out0 by simp
  have facts: "step_facts hp m B (min (T + i) (block_size hp)) (vocab_size corpus) (es ! i)"
    if "i < N" for i using facts0 that by simp
  have chain: "sl_idx (es ! i) =
            (if i = 0 then idx
             else append_tokens hp (sl_idx (es ! (i - 1))) (sl_next (es ! (i - 1))))"
    if "i < N" for i using chain0 that by simp
  have final: "gen_idx st =
            (if N = 0 then idx else append_tokens hp (sl_idx (last es)) (sl_next (last es)))"
    using final0 by simp
  have wchain: "sl_world (es ! i) =
            (if i = 0 then w
             else (sl_after (es ! (i - 1)))\<lparr>np_random := rng_skip B (np_random (sl_after (es ! (i - 1))))\<rparr>)"
    if "i < N" for i using wchain0 that by simp
  have wdraw: "np_random (sl_world (es ! i)) = rng_skip (i * B) (np_random w)"
    if "i < N" for i using wdraw0 that by simp
  have wfinal: "gen_world st =
            (if N = 0 then w
             else (sl_after (last es))\<lparr>np_random := rng_skip B (np_random (sl_after (last es)))\<rparr>)"
    using wfinal0 by simp
  have gen: "generate hp m corpus idx N w = Inr st" using loop by (simp add: generate_def)
  have len: "length (gen_out st) = N" "length (gen_steps st) = N"
    using out steps by simp_all
  have crop: "crop hp x = map (\<lambda>row. drop (length row - block_size hp) row) x" for x
    using assms(7) by (rule crop_drop)
  have body: "let e = gen_steps st ! i in
            sl_idx e = (if i = 0 then idx
                        else append_tokens hp (sl_idx (gen_steps st ! (i - 1)))
                               (sl_next (gen_steps st ! (i - 1))))
          \<and> sl_cond e = map (\<lambda>row. drop (length row - block_size hp) row) (sl_idx e)
          \<and> is_mat B (min (T + i) (block_size hp)) (sl_cond e)
          \<and> model_call hp m (sl_cond e) None (sl_world e) = Inr ((sl_logits e, None), sl_after e)
          \<and> is_tensor3 B (min (T + i) (block_size hp)) (vocab_size corpus) (sl_logits e)
          \<and> sample_rows (map (\<lambda>mt. softmax (map Fin (last mt))) (sl_logits e))
                (np_random (sl_after e))
              = Inr (sl_next e, rng_skip B (np_random (sl_after e)))
          \<and> length (sl_next e) = B
          \<and> list_all (\<lambda>t. t < vocab_size corpus) (sl_next e)
          \<and> gen_out st ! i = chars corpus ! (sl_next e ! 0)" if "i < N" for i
  proof -
    have o: "gen_out st ! i = chars corpus ! (sl_next (es ! i) ! 0)"
      using that steps(2) by (simp add: out)
    note f = facts [OF that, unfolded step_facts_def crop]
    show ?thesis
      unfolding Let_def steps(1)
      using f chain [OF that] o
      by (elim conjE) (intro conjI; assumption)
  qed
  have sampled: "let e = gen_steps st ! i;
              p = softmax (map Fin (last (sl_logits e ! b)));
              u = np_random w (i * B + b);
              k = sl_next e ! b
          in length p = vocab_size corpus \<and> list_all (\<lambda>x. 0 < x) p \<and> sum_list p = 1
             \<and> k < vocab_size corpus
             \<and> sum_list (take k p) \<le> u \<and> u < sum_list (take (Suc k) p)"
    if "i < N" "b < B" for i b
  proof -
    let ?e = "es ! i"
    let ?p = "softmax (map Fin (last (sl_logits ?e ! b)))"
    note f = facts [OF that(1), unfolded step_facts_def]
    from f have lenj: "length (sl_next ?e) = B"
      and below: "list_all (\<lambda>t. t < vocab_size corpus) (sl_next ?e)" by simp_all
    from f that(2) have d: "length (last (sl_logits ?e ! b)) = vocab_size corpus"
      "list_all (\<lambda>x. 0 < x) ?p" "sum_list ?p = 1"
      "inverse_cdf ?p (np_random (sl_world ?e) b) (sl_next ?e ! b)" by simp_all
    have u: "np_random (sl_world ?e) b = np_random w (i * B + b)"
      using wdraw [OF that(1)] by (simp add: rng_skip_def)
    have k: "sl_next ?e ! b < vocab_size corpus"
      using below lenj that(2) by (simp add: list_all_length)
    show ?thesis
      unfolding Let_def steps(1)
      using d u k by (simp add: inverse_cdf_def softmax_length)
  qed
  have worlds: "let e = gen_steps st ! i in
            sl_world e =
              (if i = 0 then w
               else (sl_after (gen_steps st ! (i - 1)))\<lparr>np_random := rng_skip B (np_random (sl_after (gen_steps st ! (i - 1))))\<rparr>)
          \<and> np_random (sl_after e) = np_random (sl_world e)
          \<and> np_random (sl_world e) = rng_skip (i * B) (np_random w)" if "i < N" for i
  proof -
    from facts [OF that, unfolded step_facts_def]
    have "np_random (sl_after (es ! i)) = np_random (sl_world (es ! i))" by simp
    with wchain [OF that] wdraw [OF that] show ?thesis
      unfolding Let_def steps(1) by (intro conjI)
  qed
  show ?thesis
    apply (rule exI [of _ st])
    apply (intro conjI allI impI)
    using gen len body final sampled worlds wfinal steps(1) by simp_all
qed

lemma vocab_size_ab: "vocab_size ''ab'' = 2"
  by (simp add: vocab_size_def chars_def sorted_list_of_set_sort_remdups)

theorem generate_tokens_witness:
  "wf_hyper (example_hyper 2) \<and> wf_GPTLanguageModel (example_hyper 2) (vocab_size ''ab'') (example_model 2)
   \<and> ''ab'' \<noteq> [] \<and> is_mat 1 1 [[0 :: int]] \<and> (0::nat) < 1 \<and> (0::nat) < 1
   \<and> 0 < block_size (example_hyper 2)
   \<and> unit_draws (np_random \<lparr> Tensor_training = False,
        Tensor_rng = (\<lambda>i. 1 / 2), np_random = (\<lambda>i. 1 / 2) \<rparr>)
   \<and> (\<exists>st. generate (example_hyper 2) (example_model 2) ''ab'' [[0]] 10
          \<lparr> Tensor_training = False,
            Tensor_rng = (\<lambda>i. 1 / 2), np_random = (\<lambda>i. 1 / 2) \<rparr> = Inr st
        \<and> length (gen_out st) = 10 \<and> length (gen_steps st) = 10)"
proof -
  let ?w = "\<lparr> Tensor_training = False,
        Tensor_rng = (\<lambda>i. 1 / 2), np_random = (\<lambda>i. 1 / 2) \<rparr>"
  have a: "wf_hyper (example_hyper 2)" by (rule example_hyper_wf)
  have b: "wf_GPTLanguageModel (example_hyper 2) (vocab_size ''ab'') (example_model 2)"
    unfolding vocab_size_ab by (rule example_model_wf)
  have c: "''ab'' \<noteq> []" by simp
  have d: "is_mat 1 1 [[0 :: int]]" by (simp add: is_mat_def)
  have e: "(0::nat) < 1" by simp
  have f: "0 < block_size (example_hyper 2)" by (simp add: example_hyper_def)
  have g: "unit_draws (np_random ?w)" by (simp add: unit_draws_def)
  from generate_tokens [OF a b c d e e f g, of 10] obtain st
    where "generate (example_hyper 2) (example_model 2) ''ab'' [[0]] 10 ?w = Inr st"
      "length (gen_out st) = 10" "length (gen_steps st) = 10" by blast
  then have "\<exists>st. generate (example_hyper 2) (example_model 2) ''ab'' [[0]] 10 ?w = Inr st
        \<and> length (gen_out st) = 10 \<and> length (gen_steps st) = 10" by blast
  with a b c d e f g show ?thesis by (intro conjI)
qed

section \<open>Facts about the generator of the tensor library\<close>












section \<open>Facts about the evaluation mode\<close>








section \<open>Facts about the evaluation and the training loop\<close>










section \<open>Facts about seeding and reproducibility\<close>

lemma uniform_model_wf: "wf_GPTLanguageModel (example_hyper bs) 2 (uniform_model bs)"
  using example_model_wf [of bs]
  by (simp add: wf_GPTLanguageModel_def uniform_model_def wf_Linear_def is_mat_def
      example_hyper_def tinygpt_hyper_def)

lemma uniform_row:
  assumes "Linear_row (lm_head (uniform_model bs)) r = Inr y"
  shows "y = [0, 0]"
  using assms
  by (auto simp: Linear_row_def uniform_model_def dot_def length_Suc_conv split: if_splits)

lemma uniform_logits:
  assumes "model_call hp (uniform_model bs) idx None w = Inr ((logits, t), w')"
    and "b < length logits" and "logits ! b \<noteq> []"
  shows "last (logits ! b) = [0, 0]"
proof -
  from assms(1) obtain x where x: "Linear_call (lm_head (uniform_model bs)) x = Inr logits"
    by (auto simp: model_call_def GPTLanguageModel_call_def GPT_logits_def Let_def ebind_Inr_iff)
  from emap_Inr [OF x [unfolded Linear_call_def]] assms(2)
  have b: "b < length x" and mt: "emap (Linear_row (lm_head (uniform_model bs))) (x ! b) = Inr (logits ! b)"
    by simp_all
  let ?t = "length (logits ! b) - 1"
  from emap_Inr [OF mt] have len: "length (logits ! b) = length (x ! b)"
    and row: "\<And>i. i < length (x ! b) \<Longrightarrow>
      Linear_row (lm_head (uniform_model bs)) (x ! b ! i) = Inr (logits ! b ! i)" by simp_all
  have "?t < length (x ! b)" using assms(3) len by (cases "logits ! b") simp_all
  from row [OF this]
  have "Linear_row (lm_head (uniform_model bs)) (x ! b ! ?t) = Inr (logits ! b ! ?t)" .
  then have "logits ! b ! ?t = [0, 0]" by (rule uniform_row)
  then show ?thesis using assms(3) by (simp add: last_conv_nth)
qed

lemma chars_ab: "chars ''ab'' = ''ab''"
  by (simp add: chars_def sorted_list_of_set_sort_remdups)

lemma softmax_zero2: "softmax [Fin 0, Fin 0] = [1 / 2, 1 / 2]"
  by (simp add: softmax_def)

lemma generate_uniform:
  assumes u: "0 \<le> u" "u < 1"
  shows "generate_output (example_hyper 1) (uniform_model 1) ''ab'' [[0]] 1
      \<lparr> Tensor_training = False, Tensor_rng = r, np_random = (\<lambda>i. u) \<rparr>
    = Inr (if u < 1 / 2 then ''a'' else ''b'')"
proof -
  let ?hp = "example_hyper 1"
  let ?m = "uniform_model 1"
  let ?w = "\<lparr> Tensor_training = False, Tensor_rng = r, np_random = (\<lambda>i. u) \<rparr>"
  let ?st0 = "\<lparr> gen_idx = [[0]], gen_out = ([] :: string), gen_world = ?w, gen_steps = [] \<rparr>"
  have wf: "wf_hyper ?hp" "wf_GPTLanguageModel ?hp (vocab_size ''ab'') ?m"
    using example_hyper_wf [of 1] uniform_model_wf [of 1] by (simp_all add: vocab_size_ab)
  have pos: "0 < vocab_size ''ab''" "(0::nat) < 1" "0 < block_size ?hp"
    by (simp_all add: vocab_size_ab example_hyper_def)
  have idx: "is_mat 1 1 (gen_idx ?st0)" by (simp add: is_mat_def)
  have draws: "unit_draws (np_random (gen_world ?st0))" using u by (simp add: unit_draws_def)
  from generate_loop_ok [OF wf pos pos(2) idx draws, of 1] obtain st' es
    where loop: "generate_loop ?hp ?m ''ab'' 1 ?st0 = Inr st'"
      and len: "length es = 1"
      and out: "gen_out st' = gen_out ?st0 @ map (\<lambda>e. chars ''ab'' ! (sl_next e ! 0)) es"
      and facts: "\<forall>i < 1. step_facts ?hp ?m 1 (min (1 + i) (block_size ?hp)) (vocab_size ''ab'') (es ! i)"
      and world: "\<forall>i < 1. sl_world (es ! i) = (if i = 0 then gen_world ?st0
          else (sl_after (es ! (i - 1)))\<lparr>np_random := rng_skip 1 (np_random (sl_after (es ! (i - 1))))\<rparr>)"
    by blast
  from len obtain e where es: "es = [e]" by (cases es) auto
  from facts es have f: "step_facts ?hp ?m 1 1 2 e"
    by (simp add: example_hyper_def vocab_size_ab)
  from world es have w: "sl_world e = ?w" by simp
  from f [unfolded step_facts_def]
  have mc: "model_call ?hp ?m (sl_cond e) None (sl_world e) = Inr ((sl_logits e, None), sl_after e)"
    and sh: "is_tensor3 1 1 2 (sl_logits e)"
    and cdf: "inverse_cdf (softmax (map Fin (last (sl_logits e ! 0)))) (np_random (sl_world e) 0)
        (sl_next e ! 0)"
    by blast+
  from sh have b: "0 < length (sl_logits e)" and ne: "sl_logits e ! 0 \<noteq> []"
    by (auto simp: is_tensor3_nth)
  have "last (sl_logits e ! 0) = [0, 0]" using mc b ne by (rule uniform_logits)
  with cdf w have "inverse_cdf [1 / 2, 1 / 2] u (sl_next e ! 0)" by (simp add: softmax_zero2)
  then have k: "sl_next e ! 0 = (if u < 1 / 2 then 0 else 1)"
    by (auto simp: inverse_cdf_def less_Suc_eq split: if_splits)
  have "gen_out st' = [chars ''ab'' ! (sl_next e ! 0)]" using out es by simp
  then have "gen_out st' = (if u < 1 / 2 then ''a'' else ''b'')" by (simp add: k chars_ab)
  then show ?thesis using loop by (simp add: generate_output_def generate_def ebind_Inr)
qed

lemma get_batches_rng:
  assumes "Tensor_rng w = Tensor_rng w'"
  shows "map_sum id fst (get_batches hp train_data val_data splits w)
    = map_sum id fst (get_batches hp train_data val_data splits w')"
  using assms
proof (induction splits arbitrary: w w')
  case Nil
  show ?case by simp
next
  case (Cons split splits)
  show ?case
  proof (cases "get_batch hp train_data val_data split (Tensor_rng w)")
    case (Inl e)
    then show ?thesis using Cons.prems by (simp add: ebind_def)
  next
    case (Inr r)
    obtain xy g where r: "r = (xy, g)" by (cases r)
    have "map_sum id fst (get_batches hp train_data val_data splits (w\<lparr>Tensor_rng := g\<rparr>))
        = map_sum id fst (get_batches hp train_data val_data splits (w'\<lparr>Tensor_rng := g\<rparr>))"
      by (rule Cons.IH) simp
    then show ?thesis
      using Inr r Cons.prems
      by (cases "get_batches hp train_data val_data splits (w\<lparr>Tensor_rng := g\<rparr>)";
          cases "get_batches hp train_data val_data splits (w'\<lparr>Tensor_rng := g\<rparr>)")
        (auto simp: ebind_def)
  qed
qed

text \<open>
  C6. Two runs under the seed of line 14 produce identical batches: whatever the
  global state of the two processes was before \<^verbatim>\<open>Tensor.manual_seed\<close>, the same sequence
  of calls of \<^verbatim>\<open>get_batch\<close> returns the same batches, because the batch sampler reads
  the seeded generator of the tensor library and nothing else. They do not produce
  an identical output string: \<^verbatim>\<open>generate\<close> samples with \<^verbatim>\<open>np.random.choice\<close> from the
  global generator of numpy, which the seed of line 14 does not set. For the example
  network with equal logits, the vocabulary of \<open>ab\<close>, the context \<open>[[0]]\<close> and one new
  token, a run in which the first draw of numpy is 0 returns \<open>a\<close> and a run in which it
  is 3/4 returns \<open>b\<close>, under the same seed.
\<close>

theorem generation_not_reproducible:
  "(\<forall>prng seed hp train_data val_data splits w1 w2.
      map_sum id fst (get_batches hp train_data val_data splits (Tensor_manual_seed prng seed w1))
      = map_sum id fst (get_batches hp train_data val_data splits (Tensor_manual_seed prng seed w2)))
   \<and> (\<forall>prng.
        generate_output (example_hyper 1) (uniform_model 1) ''ab'' [[0]] 1
          (Tensor_manual_seed prng 31337
            \<lparr> Tensor_training = False, Tensor_rng = (\<lambda>i. 0), np_random = (\<lambda>i. 0) \<rparr>)
          = Inr ''a''
      \<and> generate_output (example_hyper 1) (uniform_model 1) ''ab'' [[0]] 1
          (Tensor_manual_seed prng 31337
            \<lparr> Tensor_training = False, Tensor_rng = (\<lambda>i. 0), np_random = (\<lambda>i. 3 / 4) \<rparr>)
          = Inr ''b'')"
proof -
  have batches: "map_sum id fst (get_batches hp train_data val_data splits (Tensor_manual_seed prng seed w1))
      = map_sum id fst (get_batches hp train_data val_data splits (Tensor_manual_seed prng seed w2))"
    for prng seed hp train_data val_data splits w1 w2
    by (rule get_batches_rng) (simp add: Tensor_manual_seed_def)
  have a: "generate_output (example_hyper 1) (uniform_model 1) ''ab'' [[0]] 1
          (Tensor_manual_seed prng 31337
            \<lparr> Tensor_training = False, Tensor_rng = (\<lambda>i. 0), np_random = (\<lambda>i. 0) \<rparr>)
          = Inr ''a''" for prng
    using generate_uniform [of 0 "prng 31337"] by (simp add: Tensor_manual_seed_def)
  have b: "generate_output (example_hyper 1) (uniform_model 1) ''ab'' [[0]] 1
          (Tensor_manual_seed prng 31337
            \<lparr> Tensor_training = False, Tensor_rng = (\<lambda>i. 0), np_random = (\<lambda>i. 3 / 4) \<rparr>)
          = Inr ''b''" for prng
    using generate_uniform [of "3 / 4" "prng 31337"] by (simp add: Tensor_manual_seed_def)
  from batches a b show ?thesis by blast
qed

end
